theory Spec2Isabelle
  imports Complex_Main
begin

section \<open>Observation dictionaries\<close>

text \<open>
  The tracker receives every observed listing as a Python dictionary and reads it either
  with \<^verbatim>\<open>d[k]\<close> (a missing key raises KeyError) or with
  \<^verbatim>\<open>d.get(k)\<close> / \<^verbatim>\<open>d.get(k, default)\<close>. A key of such a
  dictionary is therefore in one of three states: not in the dictionary, bound to
  \<^verbatim>\<open>None\<close>, or bound to a value.
\<close>

datatype 'a field = Absent | Null | Present 'a

datatype error =
    KeyError string
  | TypeError
  | NotNullViolation string
  | UniqueViolation string

text \<open>\<^verbatim>\<open>d[k]\<close>: the value bound to the key (\<open>None\<close> is Python's None), or KeyError.\<close>

fun dict_item :: "string \<Rightarrow> 'a field \<Rightarrow> error + 'a option" where
  "dict_item k Absent = Inl (KeyError k)"
| "dict_item k Null = Inr None"
| "dict_item k (Present v) = Inr (Some v)"

text \<open>\<^verbatim>\<open>d.get(k)\<close>: None for a missing key.\<close>

fun dict_get :: "'a field \<Rightarrow> 'a option" where
  "dict_get Absent = None"
| "dict_get Null = None"
| "dict_get (Present v) = Some v"

text \<open>\<^verbatim>\<open>d.get(k, dflt)\<close>: the default only for a missing key; a key bound to None
  stays None.\<close>

fun dict_get_default :: "'a \<Rightarrow> 'a field \<Rightarrow> 'a option" where
  "dict_get_default dflt Absent = Some dflt"
| "dict_get_default dflt Null = None"
| "dict_get_default dflt (Present v) = Some v"

text \<open>\<^verbatim>\<open>k in d and d[k]\<close> for a key that holds a list or a dictionary: the key is
  there and its value is not empty.\<close>

fun has_entries :: "'a list field \<Rightarrow> bool" where
  "has_entries Absent = False"
| "has_entries Null = False"
| "has_entries (Present xs) = (xs \<noteq> [])"

fun entries :: "'a list field \<Rightarrow> 'a list" where
  "entries Absent = []"
| "entries Null = []"
| "entries (Present xs) = xs"

type_synonym timestamp = nat

text \<open>Prices are amounts in hundredths, the two decimals a \<^verbatim>\<open>NUMERIC(10, 2)\<close>
  column keeps.\<close>

type_synonym money = int

record seller_data =
  sd_ebay_user_id :: "string field"
  sd_rating :: "real field"
  sd_feedback_score :: "int field"

record bid_data =
  bd_amount :: "money field"
  bd_time :: "timestamp field"
  bd_bidder_id :: "string field"
  bd_winning_bid :: "bool field"

text \<open>An observed active listing: the keys \<^verbatim>\<open>save_item\<close> reads. The item specifics
  are a dictionary, kept as the list of its items in iteration order.\<close>

record item =
  i_seller :: "seller_data field"
  i_item_id :: "string field"
  i_title :: "string field"
  i_url :: "string field"
  i_search_pattern :: "string field"
  i_description :: "string field"
  i_condition :: "string field"
  i_current_price :: "money field"
  i_buy_it_now_price :: "money field"
  i_shipping_cost :: "money field"
  i_num_bids :: "int field"
  i_auction_end_time :: "timestamp field"
  i_auction_start_time :: "timestamp field"
  i_auction_status :: "string field"
  i_item_specifics :: "(string \<times> string option) list field"
  i_bids :: "bid_data list field"

text \<open>An observed completion: the keys \<^verbatim>\<open>update_completed_items\<close> reads.\<close>

record completed_item =
  ci_item_id :: "string field"
  ci_final_price :: "money field"
  ci_num_bids :: "int field"
  ci_bids :: "bid_data list field"

section \<open>The schema\<close>

text \<open>
  One record per table of \<^verbatim>\<open>initialize_schema\<close>, a column that is
  \<^verbatim>\<open>NOT NULL\<close> with its plain type and a nullable one with an option. The two
  foreign keys and \<open>bids.auction_id\<close> are nullable in the schema; the code only ever
  writes a key it has just selected or inserted, so they are plain here.
\<close>

record seller_row =
  s_id :: nat
  s_ebay_user_id :: string
  s_rating :: "real option"
  s_feedback_score :: "int option"
  s_created_at :: timestamp
  s_updated_at :: timestamp

record auction_row =
  a_id :: nat
  a_item_id :: string
  a_title :: string
  a_url :: string
  a_seller_id :: nat
  a_search_pattern :: string
  a_description :: "string option"
  a_condition :: "string option"
  a_current_price :: "money option"
  a_buy_it_now_price :: "money option"
  a_shipping_cost :: "money option"
  a_num_bids :: "int option"
  a_auction_end_time :: timestamp
  a_auction_start_time :: "timestamp option"
  a_auction_status :: string
  a_created_at :: timestamp
  a_updated_at :: timestamp

record spec_row =
  sp_id :: nat
  sp_auction_id :: nat
  sp_spec_key :: string
  sp_spec_value :: "string option"
  sp_created_at :: timestamp

record bid_row =
  b_id :: nat
  b_auction_id :: nat
  b_bid_amount :: money
  b_bid_time :: timestamp
  b_bidder_id :: "string option"
  b_winning_bid :: "bool option"
  b_created_at :: timestamp

record tables =
  sellers :: "seller_row list"
  auctions :: "auction_row list"
  item_specifics :: "spec_row list"
  bids :: "bid_row list"

text \<open>
  The connection (\<^verbatim>\<open>autocommit = False\<close>): the tables as of the last commit, the
  tables as the open transaction sees them, and the four \<^verbatim>\<open>SERIAL\<close> sequences.
  A sequence holds the last value it gave out; it is not part of any transaction, so a
  rollback does not take a value back.
\<close>

record conn =
  committed :: tables
  working :: tables
  sellers_id_seq :: nat
  auctions_id_seq :: nat
  item_specifics_id_seq :: nat
  bids_id_seq :: nat

definition commit :: "conn \<Rightarrow> conn" where
  "commit c = c\<lparr>committed := working c\<rparr>"

definition rollback :: "conn \<Rightarrow> conn" where
  "rollback c = c\<lparr>working := committed c\<rparr>"

definition empty_tables :: tables where
  "empty_tables = \<lparr>sellers = [], auctions = [], item_specifics = [], bids = []\<rparr>"

text \<open>The connection right after \<^verbatim>\<open>initialize_schema\<close> on a new database.\<close>

definition initial_conn :: conn where
  "initial_conn = \<lparr>committed = empty_tables, working = empty_tables, sellers_id_seq = 0,
     auctions_id_seq = 0, item_specifics_id_seq = 0, bids_id_seq = 0\<rparr>"

section \<open>Statements and exceptions\<close>

text \<open>
  A database operation takes the connection and returns it updated, with either the
  exception it raised or its result. An exception leaves the connection as it was when
  it was raised: undoing is \<open>rollback\<close>'s work.
\<close>

type_synonym 'a db_op = "conn \<Rightarrow> (error + 'a) \<times> conn"

definition return_op :: "'a \<Rightarrow> 'a db_op" where
  "return_op x c = (Inr x, c)"

definition raise_op :: "error \<Rightarrow> 'a db_op" where
  "raise_op e c = (Inl e, c)"

definition bind_op :: "'a db_op \<Rightarrow> ('a \<Rightarrow> 'b db_op) \<Rightarrow> 'b db_op" where
  "bind_op m f c = (case m c of (Inl e, c') \<Rightarrow> (Inl e, c') | (Inr x, c') \<Rightarrow> f x c')"

text \<open>A Python expression that may raise, evaluated without touching the connection.\<close>

definition eval_op :: "error + 'a \<Rightarrow> 'a db_op" where
  "eval_op r c = (case r of Inl e \<Rightarrow> (Inl e, c) | Inr x \<Rightarrow> (Inr x, c))"

text \<open>Sequencing of Python expressions: the first exception ends the evaluation.\<close>

definition bind_result :: "error + 'a \<Rightarrow> ('a \<Rightarrow> error + 'b) \<Rightarrow> error + 'b" where
  "bind_result r f = (case r of Inl e \<Rightarrow> Inl e | Inr x \<Rightarrow> f x)"

text \<open>A value bound to a \<^verbatim>\<open>NOT NULL\<close> column.\<close>

definition not_null :: "string \<Rightarrow> 'a option \<Rightarrow> 'a db_op" where
  "not_null col v c = (case v of None \<Rightarrow> (Inl (NotNullViolation col), c) | Some x \<Rightarrow> (Inr x, c))"

section \<open>Sellers\<close>

text \<open>\<^verbatim>\<open>SELECT id FROM sellers WHERE ebay_user_id = %s\<close> and \<open>fetchone\<close>. A NULL
  parameter equals no row.\<close>

definition select_seller_id :: "string option \<Rightarrow> conn \<Rightarrow> nat option" where
  "select_seller_id uid c =
     map_option s_id (find (\<lambda>r. Some (s_ebay_user_id r) = uid) (sellers (working c)))"

text \<open>\<^verbatim>\<open>UPDATE sellers SET rating = %s, feedback_score = %s, updated_at = NOW()
  WHERE id = %s\<close>.\<close>

definition update_seller :: "real option \<Rightarrow> int option \<Rightarrow> timestamp \<Rightarrow> nat \<Rightarrow> conn \<Rightarrow> conn" where
  "update_seller rating feedback now sid c =
     c\<lparr>working := (working c)\<lparr>sellers :=
        map (\<lambda>r. if s_id r = sid
                  then r\<lparr>s_rating := rating, s_feedback_score := feedback, s_updated_at := now\<rparr>
                  else r)
            (sellers (working c))\<rparr>\<rparr>"

text \<open>\<^verbatim>\<open>INSERT INTO sellers (ebay_user_id, rating, feedback_score) VALUES (...)
  RETURNING id\<close>. The id is the sequence's next value, taken before any constraint is
  checked; \<open>created_at\<close> and \<open>updated_at\<close> default to \<^verbatim>\<open>NOW()\<close>.\<close>

definition insert_seller :: "string option \<Rightarrow> real option \<Rightarrow> int option \<Rightarrow> timestamp \<Rightarrow> nat db_op" where
  "insert_seller uid rating feedback now c =
     (let new_id = Suc (sellers_id_seq c);
          c1 = c\<lparr>sellers_id_seq := new_id\<rparr>;
          rows = sellers (working c1)
      in case uid of
           None \<Rightarrow> (Inl (NotNullViolation ''ebay_user_id''), c1)
         | Some u \<Rightarrow>
             if new_id \<in> s_id ` set rows then (Inl (UniqueViolation ''sellers_pkey''), c1)
             else if u \<in> s_ebay_user_id ` set rows
               then (Inl (UniqueViolation ''sellers_ebay_user_id_key''), c1)
             else (Inr new_id,
                   c1\<lparr>working := (working c1)\<lparr>sellers := rows @
                     [\<lparr>s_id = new_id, s_ebay_user_id = u, s_rating = rating,
                       s_feedback_score = feedback, s_created_at = now,
                       s_updated_at = now\<rparr>]\<rparr>\<rparr>))"

definition get_seller_id :: "seller_data \<Rightarrow> timestamp \<Rightarrow> nat db_op" where
  "get_seller_id seller_data now =
     bind_op (eval_op (dict_item ''ebay_user_id'' (sd_ebay_user_id seller_data))) (\<lambda>uid c.
       case select_seller_id uid c of
         Some sid \<Rightarrow>
           (Inr sid, update_seller (dict_get (sd_rating seller_data))
                       (dict_get (sd_feedback_score seller_data)) now sid c)
       | None \<Rightarrow>
           insert_seller uid (dict_get (sd_rating seller_data))
             (dict_get (sd_feedback_score seller_data)) now c)"

section \<open>Auctions\<close>

text \<open>\<^verbatim>\<open>SELECT id FROM auctions WHERE item_id = %s\<close> and \<open>fetchone\<close>.\<close>

definition select_auction_id :: "string option \<Rightarrow> conn \<Rightarrow> nat option" where
  "select_auction_id iid c =
     map_option a_id (find (\<lambda>r. Some (a_item_id r) = iid) (auctions (working c)))"

text \<open>The parameters the two auction statements share, as \<^verbatim>\<open>save_item\<close> builds
  them: \<^verbatim>\<open>item['title']\<close>, \<^verbatim>\<open>item['url']\<close> and
  \<^verbatim>\<open>item['auction_status']\<close> raise KeyError when missing, the others are read
  with \<^verbatim>\<open>get\<close>.\<close>

record auction_params =
  p_title :: "string option"
  p_url :: "string option"
  p_seller_id :: nat
  p_description :: "string option"
  p_condition :: "string option"
  p_current_price :: "money option"
  p_buy_it_now_price :: "money option"
  p_shipping_cost :: "money option"
  p_num_bids :: "int option"
  p_auction_status :: "string option"

definition update_params :: "item \<Rightarrow> nat \<Rightarrow> error + auction_params" where
  "update_params it seller_id =
     bind_result (dict_item ''title'' (i_title it)) (\<lambda>title.
     bind_result (dict_item ''url'' (i_url it)) (\<lambda>url.
     bind_result (dict_item ''auction_status'' (i_auction_status it)) (\<lambda>status.
       Inr \<lparr>p_title = title, p_url = url, p_seller_id = seller_id,
            p_description = dict_get (i_description it),
            p_condition = dict_get (i_condition it),
            p_current_price = dict_get (i_current_price it),
            p_buy_it_now_price = dict_get (i_buy_it_now_price it),
            p_shipping_cost = dict_get (i_shipping_cost it),
            p_num_bids = dict_get_default 0 (i_num_bids it),
            p_auction_status = status\<rparr>)))"

text \<open>The parameters of the insert, read in the order of its tuple:
  \<^verbatim>\<open>item['item_id']\<close>, \<^verbatim>\<open>item['title']\<close>, \<^verbatim>\<open>item['url']\<close>,
  \<^verbatim>\<open>item['search_pattern']\<close>, \<^verbatim>\<open>item['auction_end_time']\<close>,
  \<^verbatim>\<open>item.get('auction_start_time')\<close> and \<^verbatim>\<open>item['auction_status']\<close>.\<close>

definition insert_params :: "item \<Rightarrow> nat
    \<Rightarrow> error + (string option \<times> auction_params \<times> string option \<times> timestamp option \<times> timestamp option)" where
  "insert_params it seller_id =
     bind_result (dict_item ''item_id'' (i_item_id it)) (\<lambda>iid.
     bind_result (dict_item ''title'' (i_title it)) (\<lambda>title.
     bind_result (dict_item ''url'' (i_url it)) (\<lambda>url.
     bind_result (dict_item ''search_pattern'' (i_search_pattern it)) (\<lambda>pattern.
     bind_result (dict_item ''auction_end_time'' (i_auction_end_time it)) (\<lambda>ends.
     bind_result (dict_item ''auction_status'' (i_auction_status it)) (\<lambda>status.
       Inr (iid,
            \<lparr>p_title = title, p_url = url, p_seller_id = seller_id,
             p_description = dict_get (i_description it),
             p_condition = dict_get (i_condition it),
             p_current_price = dict_get (i_current_price it),
             p_buy_it_now_price = dict_get (i_buy_it_now_price it),
             p_shipping_cost = dict_get (i_shipping_cost it),
             p_num_bids = dict_get_default 0 (i_num_bids it),
             p_auction_status = status\<rparr>,
            pattern, ends, dict_get (i_auction_start_time it))))))))"

text \<open>\<^verbatim>\<open>UPDATE auctions SET title = %s, url = %s, seller_id = %s, description = %s,
  condition = %s, current_price = %s, buy_it_now_price = %s, shipping_cost = %s,
  num_bids = %s, auction_status = %s, updated_at = NOW() WHERE id = %s\<close>. The
  \<^verbatim>\<open>NOT NULL\<close> columns are checked on a row that matches.\<close>

definition set_auction :: "auction_params \<Rightarrow> string \<Rightarrow> string \<Rightarrow> string \<Rightarrow> timestamp
    \<Rightarrow> auction_row \<Rightarrow> auction_row" where
  "set_auction p title url status now r =
     r\<lparr>a_title := title, a_url := url, a_seller_id := p_seller_id p,
       a_description := p_description p, a_condition := p_condition p,
       a_current_price := p_current_price p, a_buy_it_now_price := p_buy_it_now_price p,
       a_shipping_cost := p_shipping_cost p, a_num_bids := p_num_bids p,
       a_auction_status := status, a_updated_at := now\<rparr>"

definition update_auction :: "auction_params \<Rightarrow> timestamp \<Rightarrow> nat \<Rightarrow> unit db_op" where
  "update_auction p now auction_id c =
     (if auction_id \<notin> a_id ` set (auctions (working c)) then (Inr (), c)
      else
        bind_op (not_null ''title'' (p_title p)) (\<lambda>title.
        bind_op (not_null ''url'' (p_url p)) (\<lambda>url.
        bind_op (not_null ''auction_status'' (p_auction_status p)) (\<lambda>status c'.
          (Inr (), c'\<lparr>working := (working c')\<lparr>auctions :=
             map (\<lambda>r. if a_id r = auction_id then set_auction p title url status now r else r)
                 (auctions (working c'))\<rparr>\<rparr>)))) c)"

text \<open>\<^verbatim>\<open>INSERT INTO auctions (item_id, title, url, seller_id, search_pattern,
  description, condition, current_price, buy_it_now_price, shipping_cost, num_bids,
  auction_end_time, auction_start_time, auction_status) VALUES (...) RETURNING id\<close>.
  The status stored is the parameter \<^verbatim>\<open>item['auction_status']\<close>.\<close>

definition insert_auction :: "string option \<Rightarrow> auction_params \<Rightarrow> string option
    \<Rightarrow> timestamp option \<Rightarrow> timestamp option \<Rightarrow> timestamp \<Rightarrow> nat db_op" where
  "insert_auction iid p search_pattern end_time start_time now c =
     (let new_id = Suc (auctions_id_seq c);
          c1 = c\<lparr>auctions_id_seq := new_id\<rparr>
      in
        bind_op (not_null ''item_id'' iid) (\<lambda>item_id.
        bind_op (not_null ''title'' (p_title p)) (\<lambda>title.
        bind_op (not_null ''url'' (p_url p)) (\<lambda>url.
        bind_op (not_null ''search_pattern'' search_pattern) (\<lambda>pattern.
        bind_op (not_null ''auction_end_time'' end_time) (\<lambda>ends.
        bind_op (not_null ''auction_status'' (p_auction_status p)) (\<lambda>status c'.
          let rows = auctions (working c') in
          if new_id \<in> a_id ` set rows then (Inl (UniqueViolation ''auctions_pkey''), c')
          else if item_id \<in> a_item_id ` set rows
            then (Inl (UniqueViolation ''auctions_item_id_key''), c')
          else (Inr new_id,
                c'\<lparr>working := (working c')\<lparr>auctions := rows @
                  [\<lparr>a_id = new_id, a_item_id = item_id, a_title = title, a_url = url,
                    a_seller_id = p_seller_id p, a_search_pattern = pattern,
                    a_description = p_description p, a_condition = p_condition p,
                    a_current_price = p_current_price p,
                    a_buy_it_now_price = p_buy_it_now_price p,
                    a_shipping_cost = p_shipping_cost p, a_num_bids = p_num_bids p,
                    a_auction_end_time = ends, a_auction_start_time = start_time,
                    a_auction_status = status, a_created_at = now,
                    a_updated_at = now\<rparr>]\<rparr>\<rparr>))))))) c1)"

text \<open>The middle of \<^verbatim>\<open>save_item\<close>: look the auction up by its item id, update the
  row found, or insert a new one; the result is \<^verbatim>\<open>auction_id\<close>.\<close>

definition upsert_auction :: "item \<Rightarrow> nat \<Rightarrow> timestamp \<Rightarrow> nat db_op" where
  "upsert_auction it seller_id now =
     bind_op (eval_op (dict_item ''item_id'' (i_item_id it))) (\<lambda>iid c.
       case select_auction_id iid c of
         Some auction_id \<Rightarrow>
           bind_op (eval_op (update_params it seller_id)) (\<lambda>p.
           bind_op (update_auction p now auction_id) (\<lambda>_.
             return_op auction_id)) c
       | None \<Rightarrow>
           bind_op (eval_op (insert_params it seller_id)) (\<lambda>(iid', p, pattern, ends, starts).
             insert_auction iid' p pattern ends starts now) c)"

section \<open>Item specifics\<close>

text \<open>\<^verbatim>\<open>INSERT INTO item_specifics (auction_id, spec_key, spec_value) VALUES (...)
  ON CONFLICT (auction_id, spec_key) DO UPDATE SET spec_value = EXCLUDED.spec_value\<close>.
  The sequence gives out a value whether or not the row conflicts.\<close>

definition upsert_item_specific :: "nat \<Rightarrow> string \<Rightarrow> string option \<Rightarrow> timestamp \<Rightarrow> unit db_op" where
  "upsert_item_specific auction_id key val now c =
     (let new_id = Suc (item_specifics_id_seq c);
          c1 = c\<lparr>item_specifics_id_seq := new_id\<rparr>;
          rows = item_specifics (working c1)
      in
        if \<exists>r \<in> set rows. sp_auction_id r = auction_id \<and> sp_spec_key r = key
        then (Inr (),
              c1\<lparr>working := (working c1)\<lparr>item_specifics :=
                map (\<lambda>r. if sp_auction_id r = auction_id \<and> sp_spec_key r = key
                          then r\<lparr>sp_spec_value := val\<rparr> else r) rows\<rparr>\<rparr>)
        else if new_id \<in> sp_id ` set rows
          then (Inl (UniqueViolation ''item_specifics_pkey''), c1)
        else (Inr (),
              c1\<lparr>working := (working c1)\<lparr>item_specifics := rows @
                [\<lparr>sp_id = new_id, sp_auction_id = auction_id, sp_spec_key = key,
                  sp_spec_value = val, sp_created_at = now\<rparr>]\<rparr>\<rparr>))"

text \<open>\<^verbatim>\<open>for key, value in item['item_specifics'].items(): cursor.execute(...)\<close>\<close>

fun save_item_specifics :: "nat \<Rightarrow> (string \<times> string option) list \<Rightarrow> timestamp \<Rightarrow> unit db_op" where
  "save_item_specifics auction_id [] now = return_op ()"
| "save_item_specifics auction_id ((key, val) # rest) now =
     bind_op (upsert_item_specific auction_id key val now) (\<lambda>_.
       save_item_specifics auction_id rest now)"

section \<open>Bids\<close>

text \<open>\<^verbatim>\<open>INSERT INTO bids (auction_id, bid_amount, bid_time, bidder_id, winning_bid)
  VALUES (...) ON CONFLICT DO NOTHING\<close>. Without a conflict target the clause covers
  every unique index of the table; \<^verbatim>\<open>bids\<close> has one, its primary key
  \<^verbatim>\<open>id\<close>.\<close>

definition insert_bid :: "nat \<Rightarrow> money option \<Rightarrow> timestamp option \<Rightarrow> string option
    \<Rightarrow> bool option \<Rightarrow> timestamp \<Rightarrow> unit db_op" where
  "insert_bid auction_id amount time bidder winning now c =
     (let new_id = Suc (bids_id_seq c);
          c1 = c\<lparr>bids_id_seq := new_id\<rparr>
      in
        bind_op (not_null ''bid_amount'' amount) (\<lambda>bid_amount.
        bind_op (not_null ''bid_time'' time) (\<lambda>bid_time c'.
          let rows = bids (working c') in
          if new_id \<in> b_id ` set rows then (Inr (), c')
          else (Inr (),
                c'\<lparr>working := (working c')\<lparr>bids := rows @
                  [\<lparr>b_id = new_id, b_auction_id = auction_id, b_bid_amount = bid_amount,
                    b_bid_time = bid_time, b_bidder_id = bidder, b_winning_bid = winning,
                    b_created_at = now\<rparr>]\<rparr>\<rparr>))) c1)"

text \<open>\<^verbatim>\<open>for bid in item['bids']: cursor.execute(...)\<close>, with
  \<^verbatim>\<open>bid['amount']\<close>, \<^verbatim>\<open>bid['time']\<close>, \<^verbatim>\<open>bid.get('bidder_id')\<close> and
  \<^verbatim>\<open>bid.get('winning_bid', False)\<close>.\<close>

fun save_bids :: "nat \<Rightarrow> bid_data list \<Rightarrow> timestamp \<Rightarrow> unit db_op" where
  "save_bids auction_id [] now = return_op ()"
| "save_bids auction_id (bid # rest) now =
     bind_op (eval_op (dict_item ''amount'' (bd_amount bid))) (\<lambda>amount.
     bind_op (eval_op (dict_item ''time'' (bd_time bid))) (\<lambda>time.
     bind_op (insert_bid auction_id amount time (dict_get (bd_bidder_id bid))
                (dict_get_default False (bd_winning_bid bid)) now) (\<lambda>_.
       save_bids auction_id rest now)))"

section \<open>Saving observed items\<close>

text \<open>The statements of \<^verbatim>\<open>save_item\<close> inside its \<^verbatim>\<open>try\<close>. A seller bound to
  None fails in \<^verbatim>\<open>get_seller_id\<close> with a TypeError.\<close>

definition save_item_body :: "item \<Rightarrow> timestamp \<Rightarrow> nat db_op" where
  "save_item_body it now =
     bind_op (eval_op (dict_item ''seller'' (i_seller it))) (\<lambda>seller.
     bind_op (case seller of None \<Rightarrow> raise_op TypeError
              | Some seller_data \<Rightarrow> get_seller_id seller_data now) (\<lambda>seller_id.
     bind_op (upsert_auction it seller_id now) (\<lambda>auction_id.
     bind_op (if has_entries (i_item_specifics it)
              then save_item_specifics auction_id (entries (i_item_specifics it)) now
              else return_op ()) (\<lambda>_.
     bind_op (if has_entries (i_bids it)
              then save_bids auction_id (entries (i_bids it)) now
              else return_op ()) (\<lambda>_.
       return_op auction_id)))))"

text \<open>\<^verbatim>\<open>save_item(item, conn)\<close>: \<open>should_commit\<close> is true when no connection was
  passed. The exception handler rolls back only then, and raises again either way.\<close>

definition save_item :: "item \<Rightarrow> bool \<Rightarrow> timestamp \<Rightarrow> nat db_op" where
  "save_item it should_commit now c =
     (case save_item_body it now c of
        (Inr auction_id, c') \<Rightarrow> (Inr auction_id, if should_commit then commit c' else c')
      | (Inl e, c') \<Rightarrow> (Inl e, if should_commit then rollback c' else c'))"

text \<open>\<^verbatim>\<open>for item in items: self.save_item(item, conn)\<close>\<close>

fun save_each :: "item list \<Rightarrow> timestamp \<Rightarrow> unit db_op" where
  "save_each [] now = return_op ()"
| "save_each (it # rest) now =
     bind_op (save_item it False now) (\<lambda>_. save_each rest now)"

definition save_items :: "item list \<Rightarrow> timestamp \<Rightarrow> unit db_op" where
  "save_items items now c =
     (if items = [] then (Inr (), c)
      else case save_each items now c of
             (Inr _, c') \<Rightarrow> (Inr (), commit c')
           | (Inl e, c') \<Rightarrow> (Inl e, rollback c'))"

section \<open>Completed items\<close>

text \<open>\<^verbatim>\<open>UPDATE auctions SET auction_status = 'completed', current_price = %s,
  num_bids = %s, updated_at = NOW() WHERE item_id = %s RETURNING id\<close> and
  \<open>fetchone\<close>: every row with that item id is updated, whatever its status.\<close>

definition mark_completed :: "money option \<Rightarrow> int option \<Rightarrow> string option \<Rightarrow> timestamp
    \<Rightarrow> conn \<Rightarrow> nat option \<times> conn" where
  "mark_completed final_price num_bids iid now c =
     (map_option a_id (find (\<lambda>r. Some (a_item_id r) = iid) (auctions (working c))),
      c\<lparr>working := (working c)\<lparr>auctions :=
         map (\<lambda>r. if Some (a_item_id r) = iid
                   then r\<lparr>a_auction_status := ''completed'', a_current_price := final_price,
                          a_num_bids := num_bids, a_updated_at := now\<rparr>
                   else r)
             (auctions (working c))\<rparr>\<rparr>)"

text \<open>\<^verbatim>\<open>if winning_bid:\<close> A dictionary is true when it has a key.\<close>

definition bid_truthy :: "bid_data \<Rightarrow> bool" where
  "bid_truthy bid \<longleftrightarrow>
     bd_amount bid \<noteq> Absent \<or> bd_time bid \<noteq> Absent \<or> bd_bidder_id bid \<noteq> Absent
     \<or> bd_winning_bid bid \<noteq> Absent"

text \<open>The insert of the winning bid, with \<^verbatim>\<open>winning_bid['amount']\<close>,
  \<^verbatim>\<open>winning_bid['time']\<close>, \<^verbatim>\<open>winning_bid.get('bidder_id')\<close> and the flag
  \<^verbatim>\<open>TRUE\<close>.\<close>

definition insert_winning_bid :: "nat \<Rightarrow> bid_data \<Rightarrow> timestamp \<Rightarrow> unit db_op" where
  "insert_winning_bid auction_id winning_bid now =
     bind_op (eval_op (dict_item ''amount'' (bd_amount winning_bid))) (\<lambda>amount.
     bind_op (eval_op (dict_item ''time'' (bd_time winning_bid))) (\<lambda>time.
       insert_bid auction_id amount time (dict_get (bd_bidder_id winning_bid)) (Some True) now))"

text \<open>One turn of the loop of \<^verbatim>\<open>update_completed_items\<close>: the winning bid is
  \<^verbatim>\<open>item['bids'][-1]\<close>, read only when the update returned a row and the list is
  not empty.\<close>

definition update_completed_item :: "completed_item \<Rightarrow> timestamp \<Rightarrow> unit db_op" where
  "update_completed_item it now =
     bind_op (eval_op (dict_item ''item_id'' (ci_item_id it))) (\<lambda>iid c.
       case mark_completed (dict_get (ci_final_price it)) (dict_get_default 0 (ci_num_bids it))
              iid now c of
         (result, c') \<Rightarrow>
           (case result of
              Some auction_id \<Rightarrow>
                if has_entries (ci_bids it) then
                  (let winning_bid = last (entries (ci_bids it)) in
                   if bid_truthy winning_bid
                   then insert_winning_bid auction_id winning_bid now c'
                   else (Inr (), c'))
                else (Inr (), c')
            | None \<Rightarrow> (Inr (), c')))"

fun update_completed_each :: "completed_item list \<Rightarrow> timestamp \<Rightarrow> unit db_op" where
  "update_completed_each [] now = return_op ()"
| "update_completed_each (it # rest) now =
     bind_op (update_completed_item it now) (\<lambda>_. update_completed_each rest now)"

definition update_completed_items :: "completed_item list \<Rightarrow> timestamp \<Rightarrow> unit db_op" where
  "update_completed_items items now c =
     (if items = [] then (Inr (), c)
      else case update_completed_each items now c of
             (Inr _, c') \<Rightarrow> (Inr (), commit c')
           | (Inl e, c') \<Rightarrow> (Inl e, rollback c'))"

section \<open>The scheduler's sleep\<close>

text \<open>
  \<^verbatim>\<open>polling_interval = config['daemon']['polling_interval'] * 60\<close>, and after a cycle
  \<^verbatim>\<open>elapsed = time.time() - start_time; sleep_time = max(0, polling_interval - elapsed)\<close>.
  Times are seconds, read as real numbers.
\<close>

definition polling_interval :: "real \<Rightarrow> real" where
  "polling_interval minutes = minutes * 60"

definition sleep_time :: "real \<Rightarrow> real \<Rightarrow> real \<Rightarrow> real" where
  "sleep_time interval start_time end_time =
     (let elapsed = end_time - start_time in max 0 (interval - elapsed))"

section \<open>Invariants, operation sequences and sample observations\<close>

text \<open>An operation preserves a property of the connection when the property holds of the
  connection it returns, whether it returns a result or raises.\<close>

definition preserves :: "(conn \<Rightarrow> bool) \<Rightarrow> 'a db_op \<Rightarrow> bool" where
  "preserves P m \<longleftrightarrow> (\<forall>c. P c \<longrightarrow> P (snd (m c)))"

text \<open>The two business keys: no two sellers share a marketplace user id, no two auctions
  a marketplace item id.\<close>

definition unique_keys :: "tables \<Rightarrow> bool" where
  "unique_keys t \<longleftrightarrow>
     distinct (map s_ebay_user_id (sellers t)) \<and> distinct (map a_item_id (auctions t))"

abbreviation keys_ok :: "conn \<Rightarrow> bool" where
  "keys_ok c \<equiv> unique_keys (working c)"

definition conn_keys_ok :: "conn \<Rightarrow> bool" where
  "conn_keys_ok c \<longleftrightarrow> unique_keys (committed c) \<and> unique_keys (working c)"

text \<open>The calls a client of \<^verbatim>\<open>DatabaseHandler\<close> can make, each with the time
  \<^verbatim>\<open>NOW()\<close> has in its transaction. A sequence of calls is run the way
  \<^verbatim>\<open>run_daemon\<close> runs its cycles: an exception is caught by the caller and the next call
  goes on with the connection as the failed call left it.\<close>

datatype store_op =
    GetSellerId seller_data timestamp
  | SaveItem item timestamp
  | SaveItems "item list" timestamp
  | UpdateCompletedItems "completed_item list" timestamp

fun apply_store_op :: "store_op \<Rightarrow> conn \<Rightarrow> conn" where
  "apply_store_op (GetSellerId seller_data now) c = snd (get_seller_id seller_data now c)"
| "apply_store_op (SaveItem it now) c = snd (save_item it True now c)"
| "apply_store_op (SaveItems items now) c = snd (save_items items now c)"
| "apply_store_op (UpdateCompletedItems items now) c = snd (update_completed_items items now c)"

definition run_ops :: "store_op list \<Rightarrow> conn \<Rightarrow> conn" where
  "run_ops ops c = fold apply_store_op ops c"


text \<open>Every id of a row of \<^verbatim>\<open>item_specifics\<close> was given out by the table's sequence:
  so it is in any database that only this code writes.\<close>

definition specific_ids_issued :: "conn \<Rightarrow> bool" where
  "specific_ids_issued c \<longleftrightarrow>
     (\<forall>r \<in> set (item_specifics (working c)). sp_id r \<le> item_specifics_id_seq c)"

text \<open>Every id of a row of \<^verbatim>\<open>auctions\<close>, and of \<^verbatim>\<open>bids\<close>, was given out by the
  table's sequence.\<close>

definition auction_ids_issued :: "conn \<Rightarrow> bool" where
  "auction_ids_issued c \<longleftrightarrow>
     (\<forall>r \<in> set (auctions (working c)). a_id r \<le> auctions_id_seq c)"

definition bid_ids_issued :: "conn \<Rightarrow> bool" where
  "bid_ids_issued c \<longleftrightarrow> (\<forall>r \<in> set (bids (working c)). b_id r \<le> bids_id_seq c)"

text \<open>The same of all four tables, with the primary key of \<^verbatim>\<open>auctions\<close>: what
  holds of the committed tables and of the transaction's tables of every connection that
  only this code has written.\<close>

definition ids_issued :: "tables \<Rightarrow> conn \<Rightarrow> bool" where
  "ids_issued t c \<longleftrightarrow>
     (\<forall>r \<in> set (sellers t). s_id r \<le> sellers_id_seq c)
     \<and> (\<forall>r \<in> set (auctions t). a_id r \<le> auctions_id_seq c)
     \<and> (\<forall>r \<in> set (item_specifics t). sp_id r \<le> item_specifics_id_seq c)
     \<and> (\<forall>r \<in> set (bids t). b_id r \<le> bids_id_seq c)
     \<and> distinct (map a_id (auctions t))"

definition store_ok :: "conn \<Rightarrow> bool" where
  "store_ok c \<longleftrightarrow> ids_issued (committed c) c \<and> ids_issued (working c) c"




text \<open>Two versions of one auction row, the later one still completed if the earlier was.\<close>

definition stays_completed :: "auction_row \<Rightarrow> auction_row \<Rightarrow> bool" where
  "stays_completed r r' \<longleftrightarrow>
     a_id r' = a_id r \<and> a_item_id r' = a_item_id r
     \<and> (a_auction_status r = ''completed'' \<longrightarrow> a_auction_status r' = ''completed'')"


text \<open>Sample observations: a well-formed listing for each item id, a listing with no
  \<^verbatim>\<open>item_id\<close> key, and completions.\<close>

definition seller_s1 :: seller_data where
  "seller_s1 = \<lparr>sd_ebay_user_id = Present ''s1'', sd_rating = Present 99,
     sd_feedback_score = Present 1200\<rparr>"

definition listing :: "string \<Rightarrow> item" where
  "listing iid = \<lparr>i_seller = Present seller_s1, i_item_id = Present iid,
     i_title = Present ''RTX 3090'', i_url = Present (''https://www.ebay.com/itm/'' @ iid),
     i_search_pattern = Present ''rtx 3090'', i_description = Absent,
     i_condition = Present ''Used'', i_current_price = Present 10000,
     i_buy_it_now_price = Absent, i_shipping_cost = Absent, i_num_bids = Absent,
     i_auction_end_time = Present 1000, i_auction_start_time = Absent,
     i_auction_status = Present ''active'', i_item_specifics = Absent, i_bids = Absent\<rparr>"

definition listing_without_id :: item where
  "listing_without_id = (listing ''2'')\<lparr>i_item_id := Absent\<rparr>"

definition completion :: "string \<Rightarrow> completed_item" where
  "completion iid = \<lparr>ci_item_id = Present iid, ci_final_price = Present 15000,
     ci_num_bids = Present 2,
     ci_bids = Present
       [\<lparr>bd_amount = Present 12000, bd_time = Present 900, bd_bidder_id = Present ''b1'',
          bd_winning_bid = Absent\<rparr>,
        \<lparr>bd_amount = Present 15000, bd_time = Present 990, bd_bidder_id = Present ''b2'',
          bd_winning_bid = Absent\<rparr>]\<rparr>"

definition completion_without_id :: completed_item where
  "completion_without_id = (completion ''2'')\<lparr>ci_item_id := Absent\<rparr>"

definition sample_ops :: "store_op list" where
  "sample_ops = [SaveItems [listing ''1'', listing ''1''] 1, UpdateCompletedItems [completion ''1''] 2,
     SaveItem (listing ''2'') 3, GetSellerId seller_s1 4, SaveItems [listing ''3'', listing_without_id] 5]"


definition bid_b1 :: bid_data where
  "bid_b1 = \<lparr>bd_amount = Present 12000, bd_time = Present 900, bd_bidder_id = Present ''b1'',
     bd_winning_bid = Absent\<rparr>"

definition listing_with_bid :: item where
  "listing_with_bid = (listing ''1'')\<lparr>i_item_specifics := Present [(''Brand'', Some ''NVIDIA'')],
     i_bids := Present [bid_b1]\<rparr>"

definition conn_tracking :: conn where
  "conn_tracking = snd (save_items [listing ''1''] 1 initial_conn)"


section \<open>Properties\<close>

subsection \<open>Sequencing\<close>

lemma snd_return_op [simp]: "snd (return_op x c) = c"
  by (simp add: return_op_def)

lemma snd_raise_op [simp]: "snd (raise_op e c) = c"
  by (simp add: raise_op_def)

lemma snd_eval_op [simp]: "snd (eval_op r c) = c"
  by (simp add: eval_op_def split: sum.splits)

lemma snd_not_null [simp]: "snd (not_null col v c) = c"
  by (simp add: not_null_def split: option.splits)

text \<open>A projection of the connection that no step changes is not changed by their sequence.\<close>

lemma frame_bind:
  assumes "\<And>c. g (snd (m c)) = g c" and "\<And>x c. g (snd (f x c)) = g c"
  shows "g (snd (bind_op m f c)) = g c"
proof -
  obtain r c' where m: "m c = (r, c')" by (cases "m c")
  from assms(1) [of c] m have g: "g c' = g c" by simp
  show ?thesis
  proof (cases r)
    case (Inl e)
    with m g show ?thesis by (simp add: bind_op_def)
  next
    case (Inr x)
    with m g assms(2) [of x c'] show ?thesis by (simp add: bind_op_def)
  qed
qed

lemma preservesI: "(\<And>c. P c \<Longrightarrow> P (snd (m c))) \<Longrightarrow> preserves P m"
  by (simp add: preserves_def)

lemma preservesD: "preserves P m \<Longrightarrow> P c \<Longrightarrow> P (snd (m c))"
  by (simp add: preserves_def)

lemma preserves_return [simp]: "preserves P (return_op x)"
  by (simp add: preserves_def)

lemma preserves_raise [simp]: "preserves P (raise_op e)"
  by (simp add: preserves_def)

lemma preserves_eval [simp]: "preserves P (eval_op r)"
  by (simp add: preserves_def)

lemma preserves_not_null [simp]: "preserves P (not_null col v)"
  by (simp add: preserves_def)

lemma preserves_bind:
  assumes "preserves P m" and "\<And>x. preserves P (f x)"
  shows "preserves P (bind_op m f)"
proof (rule preservesI)
  fix c assume P: "P c"
  obtain r c' where m: "m c = (r, c')" by (cases "m c")
  from preservesD [OF assms(1) P] m have P': "P c'" by simp
  show "P (snd (bind_op m f c))"
  proof (cases r)
    case (Inl e)
    with m P' show ?thesis by (simp add: bind_op_def)
  next
    case (Inr x)
    with m preservesD [OF assms(2) P', of x] show ?thesis by (simp add: bind_op_def)
  qed
qed

lemma find_map_same:
  "(\<And>x. x \<in> set xs \<Longrightarrow> P (f x) = P x) \<Longrightarrow> find P (map f xs) = map_option f (find P xs)"
  by (induction xs) simp_all

lemma find_snoc_new: "find P xs = None \<Longrightarrow> P x \<Longrightarrow> find P (xs @ [x]) = Some x"
  by (induction xs) (simp_all split: if_splits)

lemma distinct_key_once:
  "distinct (map k xs) \<Longrightarrow> x \<in> set xs \<Longrightarrow> length (filter (\<lambda>y. k y = k x) xs) = 1"
proof (induction xs)
  case Nil
  then show ?case by simp
next
  case (Cons a xs)
  show ?case
  proof (cases "x = a")
    case True
    from Cons.prems have "k a \<notin> k ` set xs" by simp
    then have "\<forall>y \<in> set xs. k y \<noteq> k a" by (auto simp: image_iff)
    then have "filter (\<lambda>y. k y = k a) xs = []" by (simp add: filter_empty_conv)
    with True show ?thesis by simp
  next
    case False
    with Cons.prems have "x \<in> set xs" "k a \<noteq> k x" by auto
    with Cons show ?thesis by simp
  qed
qed

subsection \<open>No statement writes the committed tables\<close>

lemma committed_update_seller [simp]:
  "committed (update_seller r f now sid c) = committed c"
  by (simp add: update_seller_def)

lemma committed_insert_seller [simp]:
  "committed (snd (insert_seller uid r f now c)) = committed c"
  by (simp add: insert_seller_def Let_def split: option.splits)

lemma committed_get_seller_id [simp]:
  "committed (snd (get_seller_id sd now c)) = committed c"
  unfolding get_seller_id_def
  by (rule frame_bind) (simp_all split: option.splits)

lemma committed_update_auction [simp]:
  "committed (snd (update_auction p now k c)) = committed c"
  unfolding update_auction_def
  by (simp add: frame_bind)

lemma committed_insert_auction [simp]:
  "committed (snd (insert_auction iid p pat ends starts now c)) = committed c"
proof -
  have "committed (snd (insert_auction iid p pat ends starts now c))
        = committed (c\<lparr>auctions_id_seq := Suc (auctions_id_seq c)\<rparr>)"
    unfolding insert_auction_def Let_def
    by (intro frame_bind) (simp_all add: Let_def)
  then show ?thesis by simp
qed

lemma committed_upsert_auction [simp]:
  "committed (snd (upsert_auction it sid now c)) = committed c"
  unfolding upsert_auction_def
  by (rule frame_bind) (simp_all add: frame_bind split_def split: option.splits)

lemma committed_upsert_item_specific [simp]:
  "committed (snd (upsert_item_specific k key v now c)) = committed c"
  by (simp add: upsert_item_specific_def Let_def)

lemma committed_save_item_specifics [simp]:
  "committed (snd (save_item_specifics k m now c)) = committed c"
  by (induction k m now arbitrary: c rule: save_item_specifics.induct)
     (simp_all add: frame_bind)

lemma committed_insert_bid [simp]:
  "committed (snd (insert_bid k a tm b w now c)) = committed c"
proof -
  have "committed (snd (insert_bid k a tm b w now c))
        = committed (c\<lparr>bids_id_seq := Suc (bids_id_seq c)\<rparr>)"
    unfolding insert_bid_def Let_def
    by (intro frame_bind) (simp_all add: Let_def)
  then show ?thesis by simp
qed

lemma committed_save_bids [simp]:
  "committed (snd (save_bids k bs now c)) = committed c"
  by (induction k bs now arbitrary: c rule: save_bids.induct)
     (simp_all add: frame_bind)

lemma committed_save_item_body [simp]:
  "committed (snd (save_item_body it now c)) = committed c"
  unfolding save_item_body_def
  by (intro frame_bind) (simp_all split: option.splits)

lemma save_item_uncommitted [simp]:
  "committed (snd (save_item it False now c)) = committed c"
proof -
  have "snd (save_item it False now c) = snd (save_item_body it now c)"
    by (simp add: save_item_def split: prod.splits sum.splits)
  then show ?thesis by simp
qed

lemma committed_save_each [simp]:
  "committed (snd (save_each items now c)) = committed c"
  by (induction items now arbitrary: c rule: save_each.induct)
     (simp_all add: frame_bind)

lemma committed_mark_completed [simp]:
  "committed (snd (mark_completed fp nb iid now c)) = committed c"
  by (simp add: mark_completed_def)

lemma committed_insert_winning_bid [simp]:
  "committed (snd (insert_winning_bid k wb now c)) = committed c"
  unfolding insert_winning_bid_def
  by (intro frame_bind) simp_all

lemma committed_update_completed_item [simp]:
  "committed (snd (update_completed_item it now c)) = committed c"
  unfolding update_completed_item_def
proof (rule frame_bind)
  fix iid c
  let ?m = "mark_completed (dict_get (ci_final_price it)) (dict_get_default 0 (ci_num_bids it)) iid now"
  obtain result c' where m: "?m c = (result, c')" by (cases "?m c")
  with committed_mark_completed [of "dict_get (ci_final_price it)"
      "dict_get_default 0 (ci_num_bids it)" iid now c]
  have "committed c' = committed c" by simp
  with m show "committed (snd (case ?m c of
      (result, c') \<Rightarrow>
        (case result of
           None \<Rightarrow> (Inr (), c')
         | Some auction_id \<Rightarrow>
             if has_entries (ci_bids it) then
               (let winning_bid = last (entries (ci_bids it)) in
                if bid_truthy winning_bid
                then insert_winning_bid auction_id winning_bid now c'
                else (Inr (), c'))
             else (Inr (), c')))) = committed c"
    by (simp add: Let_def split: option.splits)
qed simp

lemma committed_update_completed_each [simp]:
  "committed (snd (update_completed_each items now c)) = committed c"
  by (induction items now arbitrary: c rule: update_completed_each.induct)
     (simp_all add: frame_bind)

lemma snd_save_item_False: "snd (save_item it False now c) = snd (save_item_body it now c)"
  by (simp add: save_item_def split: prod.splits sum.splits)

lemma save_each_append:
  "save_each (xs @ ys) now c =
     (case save_each xs now c of (Inl e, c') \<Rightarrow> (Inl e, c') | (Inr u, c') \<Rightarrow> save_each ys now c')"
  by (induction xs arbitrary: c)
     (simp_all add: bind_op_def return_op_def split: prod.splits sum.splits)

subsection \<open>Whole-batch transactions\<close>

lemma save_each_Cons_fail:
  "fst (save_item it False now c) = Inl e' \<Longrightarrow> fst (save_each (it # rest) now c) = Inl e'"
  by (cases "save_item it False now c") (simp add: bind_op_def)

lemma save_each_Cons_ok:
  "fst (save_item it False now c) = Inr x \<Longrightarrow>
   save_each (it # rest) now c = save_each rest now (snd (save_item it False now c))"
  by (cases "save_item it False now c") (simp add: bind_op_def)

lemma save_each_raises_iff:
  "fst (save_each items now c) = Inl e \<longleftrightarrow>
     (\<exists>before bad after. items = before @ bad # after
        \<and> fst (save_each before now c) = Inr ()
        \<and> fst (save_item bad False now (snd (save_each before now c))) = Inl e)"
proof (induction items arbitrary: c)
  case Nil
  show ?case by (simp add: return_op_def)
next
  case (Cons it rest)
  show ?case
  proof (cases "fst (save_item it False now c)")
    case (Inl e')
    have "(\<exists>before bad after. it # rest = before @ bad # after
        \<and> fst (save_each before now c) = Inr ()
        \<and> fst (save_item bad False now (snd (save_each before now c))) = Inl e) \<longleftrightarrow> e' = e"
    proof
      assume "\<exists>before bad after. it # rest = before @ bad # after
        \<and> fst (save_each before now c) = Inr ()
        \<and> fst (save_item bad False now (snd (save_each before now c))) = Inl e"
      then obtain before bad after where d: "it # rest = before @ bad # after"
        and ok: "fst (save_each before now c) = Inr ()"
        and bad: "fst (save_item bad False now (snd (save_each before now c))) = Inl e"
        by blast
      show "e' = e"
      proof (cases before)
        case Nil
        with d bad Inl show ?thesis by (simp add: return_op_def)
      next
        case (Cons b bs)
        with d have "b = it" by simp
        with Cons ok save_each_Cons_fail [OF Inl, of bs] show ?thesis by simp
      qed
    next
      assume "e' = e"
      with Inl have "it # rest = [] @ it # rest \<and> fst (save_each [] now c) = Inr ()
        \<and> fst (save_item it False now (snd (save_each [] now c))) = Inl e"
        by (simp add: return_op_def)
      then show "\<exists>before bad after. it # rest = before @ bad # after
        \<and> fst (save_each before now c) = Inr ()
        \<and> fst (save_item bad False now (snd (save_each before now c))) = Inl e"
        by blast
    qed
    with save_each_Cons_fail [OF Inl, of rest] show ?thesis by auto
  next
    case (Inr x)
    let ?c1 = "snd (save_item it False now c)"
    note step = save_each_Cons_ok [OF Inr]
    have "(\<exists>before bad after. it # rest = before @ bad # after
        \<and> fst (save_each before now c) = Inr ()
        \<and> fst (save_item bad False now (snd (save_each before now c))) = Inl e)
      \<longleftrightarrow> (\<exists>before bad after. rest = before @ bad # after
        \<and> fst (save_each before now ?c1) = Inr ()
        \<and> fst (save_item bad False now (snd (save_each before now ?c1))) = Inl e)"
    proof
      assume "\<exists>before bad after. it # rest = before @ bad # after
        \<and> fst (save_each before now c) = Inr ()
        \<and> fst (save_item bad False now (snd (save_each before now c))) = Inl e"
      then obtain before bad after where d: "it # rest = before @ bad # after"
        and ok: "fst (save_each before now c) = Inr ()"
        and bad: "fst (save_item bad False now (snd (save_each before now c))) = Inl e"
        by blast
      show "\<exists>before bad after. rest = before @ bad # after
        \<and> fst (save_each before now ?c1) = Inr ()
        \<and> fst (save_item bad False now (snd (save_each before now ?c1))) = Inl e"
      proof (cases before)
        case Nil
        with d bad Inr show ?thesis by (simp add: return_op_def)
      next
        case (Cons b bs)
        with d have "b = it" "rest = bs @ bad # after" by simp_all
        with Cons ok bad step [of bs] show ?thesis by auto
      qed
    next
      assume "\<exists>before bad after. rest = before @ bad # after
        \<and> fst (save_each before now ?c1) = Inr ()
        \<and> fst (save_item bad False now (snd (save_each before now ?c1))) = Inl e"
      then obtain before bad after where d: "rest = before @ bad # after"
        and ok: "fst (save_each before now ?c1) = Inr ()"
        and bad: "fst (save_item bad False now (snd (save_each before now ?c1))) = Inl e"
        by blast
      from d ok bad step [of before]
      have "it # rest = (it # before) @ bad # after
        \<and> fst (save_each (it # before) now c) = Inr ()
        \<and> fst (save_item bad False now (snd (save_each (it # before) now c))) = Inl e"
        by simp
      then show "\<exists>before bad after. it # rest = before @ bad # after
        \<and> fst (save_each before now c) = Inr ()
        \<and> fst (save_item bad False now (snd (save_each before now c))) = Inl e"
        by blast
    qed
    with Cons.IH [of ?c1] step [of rest] show ?thesis by simp
  qed
qed

lemma update_completed_each_Cons_fail:
  "fst (update_completed_item it now c) = Inl e' \<Longrightarrow>
   fst (update_completed_each (it # rest) now c) = Inl e'"
  by (cases "update_completed_item it now c") (simp add: bind_op_def)

lemma update_completed_each_Cons_ok:
  "fst (update_completed_item it now c) = Inr x \<Longrightarrow>
   update_completed_each (it # rest) now c
   = update_completed_each rest now (snd (update_completed_item it now c))"
  by (cases "update_completed_item it now c") (simp add: bind_op_def)

lemma update_completed_each_raises_iff:
  "fst (update_completed_each items now c) = Inl e \<longleftrightarrow>
     (\<exists>before bad after. items = before @ bad # after
        \<and> fst (update_completed_each before now c) = Inr ()
        \<and> fst (update_completed_item bad now (snd (update_completed_each before now c))) = Inl e)"
proof (induction items arbitrary: c)
  case Nil
  show ?case by (simp add: return_op_def)
next
  case (Cons it rest)
  show ?case
  proof (cases "fst (update_completed_item it now c)")
    case (Inl e')
    have "(\<exists>before bad after. it # rest = before @ bad # after
        \<and> fst (update_completed_each before now c) = Inr ()
        \<and> fst (update_completed_item bad now (snd (update_completed_each before now c))) = Inl e)
      \<longleftrightarrow> e' = e"
    proof
      assume "\<exists>before bad after. it # rest = before @ bad # after
        \<and> fst (update_completed_each before now c) = Inr ()
        \<and> fst (update_completed_item bad now (snd (update_completed_each before now c))) = Inl e"
      then obtain before bad after where d: "it # rest = before @ bad # after"
        and ok: "fst (update_completed_each before now c) = Inr ()"
        and bad: "fst (update_completed_item bad now (snd (update_completed_each before now c)))
          = Inl e"
        by blast
      show "e' = e"
      proof (cases before)
        case Nil
        with d bad Inl show ?thesis by (simp add: return_op_def)
      next
        case (Cons b bs)
        with d have "b = it" by simp
        with Cons ok update_completed_each_Cons_fail [OF Inl, of bs] show ?thesis by simp
      qed
    next
      assume "e' = e"
      with Inl have "it # rest = [] @ it # rest \<and> fst (update_completed_each [] now c) = Inr ()
        \<and> fst (update_completed_item it now (snd (update_completed_each [] now c))) = Inl e"
        by (simp add: return_op_def)
      then show "\<exists>before bad after. it # rest = before @ bad # after
        \<and> fst (update_completed_each before now c) = Inr ()
        \<and> fst (update_completed_item bad now (snd (update_completed_each before now c))) = Inl e"
        by blast
    qed
    with update_completed_each_Cons_fail [OF Inl, of rest] show ?thesis by auto
  next
    case (Inr x)
    let ?c1 = "snd (update_completed_item it now c)"
    note step = update_completed_each_Cons_ok [OF Inr]
    have "(\<exists>before bad after. it # rest = before @ bad # after
        \<and> fst (update_completed_each before now c) = Inr ()
        \<and> fst (update_completed_item bad now (snd (update_completed_each before now c))) = Inl e)
      \<longleftrightarrow> (\<exists>before bad after. rest = before @ bad # after
        \<and> fst (update_completed_each before now ?c1) = Inr ()
        \<and> fst (update_completed_item bad now (snd (update_completed_each before now ?c1)))
            = Inl e)"
    proof
      assume "\<exists>before bad after. it # rest = before @ bad # after
        \<and> fst (update_completed_each before now c) = Inr ()
        \<and> fst (update_completed_item bad now (snd (update_completed_each before now c))) = Inl e"
      then obtain before bad after where d: "it # rest = before @ bad # after"
        and ok: "fst (update_completed_each before now c) = Inr ()"
        and bad: "fst (update_completed_item bad now (snd (update_completed_each before now c)))
          = Inl e"
        by blast
      show "\<exists>before bad after. rest = before @ bad # after
        \<and> fst (update_completed_each before now ?c1) = Inr ()
        \<and> fst (update_completed_item bad now (snd (update_completed_each before now ?c1)))
            = Inl e"
      proof (cases before)
        case Nil
        with d bad Inr show ?thesis by (simp add: return_op_def)
      next
        case (Cons b bs)
        with d have "b = it" "rest = bs @ bad # after" by simp_all
        with Cons ok bad step [of bs] show ?thesis by auto
      qed
    next
      assume "\<exists>before bad after. rest = before @ bad # after
        \<and> fst (update_completed_each before now ?c1) = Inr ()
        \<and> fst (update_completed_item bad now (snd (update_completed_each before now ?c1)))
            = Inl e"
      then obtain before bad after where d: "rest = before @ bad # after"
        and ok: "fst (update_completed_each before now ?c1) = Inr ()"
        and bad: "fst (update_completed_item bad now (snd (update_completed_each before now ?c1)))
          = Inl e"
        by blast
      from d ok bad step [of before]
      have "it # rest = (it # before) @ bad # after
        \<and> fst (update_completed_each (it # before) now c) = Inr ()
        \<and> fst (update_completed_item bad now (snd (update_completed_each (it # before) now c)))
            = Inl e"
        by simp
      then show "\<exists>before bad after. it # rest = before @ bad # after
        \<and> fst (update_completed_each before now c) = Inr ()
        \<and> fst (update_completed_item bad now (snd (update_completed_each before now c))) = Inl e"
        by blast
    qed
    with Cons.IH [of ?c1] step [of rest] show ?thesis by simp
  qed
qed

text \<open>What the two batch calls do with the result of their loop.\<close>

lemma batch_commit_or_rollback:
  "committed (snd (save_each items now c)) = committed c
   \<and> committed (snd (update_completed_each done_items now c)) = committed c
   \<and> (fst (save_each items now c) = Inl e \<longrightarrow>
        fst (save_items items now c) = Inl e
        \<and> committed (snd (save_items items now c)) = committed c
        \<and> working (snd (save_items items now c)) = committed c)
   \<and> (fst (update_completed_each done_items now c) = Inl e \<longrightarrow>
        fst (update_completed_items done_items now c) = Inl e
        \<and> committed (snd (update_completed_items done_items now c)) = committed c
        \<and> working (snd (update_completed_items done_items now c)) = committed c)
   \<and> (items \<noteq> [] \<and> fst (save_each items now c) = Inr () \<longrightarrow>
        fst (save_items items now c) = Inr ()
        \<and> committed (snd (save_items items now c)) = working (snd (save_each items now c))
        \<and> working (snd (save_items items now c)) = working (snd (save_each items now c)))
   \<and> (done_items \<noteq> [] \<and> fst (update_completed_each done_items now c) = Inr () \<longrightarrow>
        fst (update_completed_items done_items now c) = Inr ()
        \<and> committed (snd (update_completed_items done_items now c))
            = working (snd (update_completed_each done_items now c))
        \<and> working (snd (update_completed_items done_items now c))
            = working (snd (update_completed_each done_items now c)))"
proof -
  have active_fail: "fst (save_items items now c) = Inl e
      \<and> committed (snd (save_items items now c)) = committed c
      \<and> working (snd (save_items items now c)) = committed c"
    if h: "fst (save_each items now c) = Inl e"
  proof -
    obtain c' where r: "save_each items now c = (Inl e, c')"
      using h by (cases "save_each items now c") simp
    then have "items \<noteq> []" by (auto simp: return_op_def)
    moreover from r have "committed c' = committed c"
      using committed_save_each [of items now c] by simp
    ultimately show ?thesis using r by (simp add: save_items_def rollback_def)
  qed
  have done_fail: "fst (update_completed_items done_items now c) = Inl e
      \<and> committed (snd (update_completed_items done_items now c)) = committed c
      \<and> working (snd (update_completed_items done_items now c)) = committed c"
    if h: "fst (update_completed_each done_items now c) = Inl e"
  proof -
    obtain c' where r: "update_completed_each done_items now c = (Inl e, c')"
      using h by (cases "update_completed_each done_items now c") simp
    then have "done_items \<noteq> []" by (auto simp: return_op_def)
    moreover from r have "committed c' = committed c"
      using committed_update_completed_each [of done_items now c] by simp
    ultimately show ?thesis using r by (simp add: update_completed_items_def rollback_def)
  qed
  have active_ok: "fst (save_items items now c) = Inr ()
      \<and> committed (snd (save_items items now c)) = working (snd (save_each items now c))
      \<and> working (snd (save_items items now c)) = working (snd (save_each items now c))"
    if "items \<noteq> []" "fst (save_each items now c) = Inr ()"
    using that by (cases "save_each items now c") (simp add: save_items_def commit_def)
  have done_ok: "fst (update_completed_items done_items now c) = Inr ()
      \<and> committed (snd (update_completed_items done_items now c))
          = working (snd (update_completed_each done_items now c))
      \<and> working (snd (update_completed_items done_items now c))
          = working (snd (update_completed_each done_items now c))"
    if "done_items \<noteq> []" "fst (update_completed_each done_items now c) = Inr ()"
    using that by (cases "update_completed_each done_items now c")
      (simp add: update_completed_items_def commit_def)
  show ?thesis
    using active_fail done_fail active_ok done_ok by simp
qed

text \<open>
  C10. Batch writes are atomic at whole-batch granularity. No statement of a batch's loop
  touches the committed tables. The loop of \<^verbatim>\<open>save_items\<close> or of
  \<^verbatim>\<open>update_completed_items\<close> raises exactly when the write of some item raises after
  the items before it were written. When it does, the call raises the same exception, and
  the rollback leaves the committed tables as they were and the transaction's tables equal
  to them: every write of the batch is gone. When the loop of a batch that is not empty
  runs to its end, the one commit after it makes the transaction's tables the committed
  ones.
\<close>

theorem batch_writes_atomic:
  "(fst (save_each items now c) = Inl e) =
       (\<exists>before bad after. items = before @ bad # after
          \<and> fst (save_each before now c) = Inr ()
          \<and> fst (save_item bad False now (snd (save_each before now c))) = Inl e)
   \<and> (fst (update_completed_each done_items now c) = Inl e) =
       (\<exists>before bad after. done_items = before @ bad # after
          \<and> fst (update_completed_each before now c) = Inr ()
          \<and> fst (update_completed_item bad now (snd (update_completed_each before now c)))
              = Inl e)
   \<and> committed (snd (save_each items now c)) = committed c
   \<and> committed (snd (update_completed_each done_items now c)) = committed c
   \<and> (fst (save_each items now c) = Inl e \<longrightarrow>
        fst (save_items items now c) = Inl e
        \<and> committed (snd (save_items items now c)) = committed c
        \<and> working (snd (save_items items now c)) = committed c)
   \<and> (fst (update_completed_each done_items now c) = Inl e \<longrightarrow>
        fst (update_completed_items done_items now c) = Inl e
        \<and> committed (snd (update_completed_items done_items now c)) = committed c
        \<and> working (snd (update_completed_items done_items now c)) = committed c)
   \<and> (items \<noteq> [] \<and> fst (save_each items now c) = Inr () \<longrightarrow>
        fst (save_items items now c) = Inr ()
        \<and> committed (snd (save_items items now c)) = working (snd (save_each items now c))
        \<and> working (snd (save_items items now c)) = working (snd (save_each items now c)))
   \<and> (done_items \<noteq> [] \<and> fst (update_completed_each done_items now c) = Inr () \<longrightarrow>
        fst (update_completed_items done_items now c) = Inr ()
        \<and> committed (snd (update_completed_items done_items now c))
            = working (snd (update_completed_each done_items now c))
        \<and> working (snd (update_completed_items done_items now c))
            = working (snd (update_completed_each done_items now c)))"
  by (rule conjI [OF save_each_raises_iff [of items now c e]
        conjI [OF update_completed_each_raises_iff [of done_items now c e]
          batch_commit_or_rollback [of items now c done_items e]]])

theorem batch_writes_atomic_witness:
  "fst (save_each [listing ''1'', listing_without_id] 1 initial_conn) = Inl (KeyError ''item_id'')
   \<and> fst (save_items [listing ''1'', listing_without_id] 1 initial_conn) = Inl (KeyError ''item_id'')
   \<and> committed (snd (save_items [listing ''1'', listing_without_id] 1 initial_conn))
       = committed initial_conn
   \<and> working (snd (save_items [listing ''1'', listing_without_id] 1 initial_conn))
       = committed initial_conn
   \<and> fst (update_completed_each [completion ''1'', completion_without_id] 2
         (snd (save_items [listing ''1''] 1 initial_conn))) = Inl (KeyError ''item_id'')
   \<and> fst (update_completed_items [completion ''1'', completion_without_id] 2
         (snd (save_items [listing ''1''] 1 initial_conn))) = Inl (KeyError ''item_id'')
   \<and> working (snd (update_completed_items [completion ''1'', completion_without_id] 2
         (snd (save_items [listing ''1''] 1 initial_conn))))
       = committed (snd (save_items [listing ''1''] 1 initial_conn))
   \<and> [listing ''1''] \<noteq> [] \<and> fst (save_each [listing ''1''] 1 initial_conn) = Inr ()
   \<and> committed (snd (save_items [listing ''1''] 1 initial_conn))
       = working (snd (save_each [listing ''1''] 1 initial_conn))
   \<and> [completion ''1''] \<noteq> []
   \<and> fst (update_completed_each [completion ''1''] 2
         (snd (save_items [listing ''1''] 1 initial_conn))) = Inr ()
   \<and> committed (snd (update_completed_items [completion ''1''] 2
         (snd (save_items [listing ''1''] 1 initial_conn))))
       = working (snd (update_completed_each [completion ''1''] 2
           (snd (save_items [listing ''1''] 1 initial_conn))))"
proof -
  have h1: "fst (save_each [listing ''1'', listing_without_id] 1 initial_conn)
      = Inl (KeyError ''item_id'')"
    by code_simp
  have h2: "fst (update_completed_each [completion ''1'', completion_without_id] 2
         (snd (save_items [listing ''1''] 1 initial_conn))) = Inl (KeyError ''item_id'')"
    by code_simp
  have h3: "fst (save_each [listing ''1''] 1 initial_conn) = Inr ()"
    by code_simp
  have h4: "fst (update_completed_each [completion ''1''] 2
         (snd (save_items [listing ''1''] 1 initial_conn))) = Inr ()"
    by code_simp
  note rest = conjunct2 [OF conjunct2]
  from batch_writes_atomic [where items = "[listing ''1'', listing_without_id]" and now = 1 and c = initial_conn and done_items = "[]" and e = "KeyError ''item_id''", THEN rest] h1
  have r1: "fst (save_items [listing ''1'', listing_without_id] 1 initial_conn)
        = Inl (KeyError ''item_id'')
      \<and> committed (snd (save_items [listing ''1'', listing_without_id] 1 initial_conn))
        = committed initial_conn
      \<and> working (snd (save_items [listing ''1'', listing_without_id] 1 initial_conn))
        = committed initial_conn"
    by blast
  from batch_writes_atomic [where items = "[]" and now = 2 and c = "snd (save_items [listing ''1''] 1 initial_conn)" and done_items = "[completion ''1'', completion_without_id]" and e = "KeyError ''item_id''", THEN rest] h2
  have r2: "fst (update_completed_items [completion ''1'', completion_without_id] 2
         (snd (save_items [listing ''1''] 1 initial_conn))) = Inl (KeyError ''item_id'')
      \<and> committed (snd (update_completed_items [completion ''1'', completion_without_id] 2
         (snd (save_items [listing ''1''] 1 initial_conn))))
        = committed (snd (save_items [listing ''1''] 1 initial_conn))
      \<and> working (snd (update_completed_items [completion ''1'', completion_without_id] 2
         (snd (save_items [listing ''1''] 1 initial_conn))))
        = committed (snd (save_items [listing ''1''] 1 initial_conn))"
    by blast
  have ne: "[listing ''1''] \<noteq> [] \<and> fst (save_each [listing ''1''] 1 initial_conn) = Inr ()"
    using h3 by simp
  from batch_writes_atomic [where items = "[listing ''1'']" and now = 1 and c = initial_conn and done_items = "[]" and e = "KeyError ''item_id''",
      THEN rest] ne
  have r3: "fst (save_items [listing ''1''] 1 initial_conn) = Inr ()
      \<and> committed (snd (save_items [listing ''1''] 1 initial_conn))
        = working (snd (save_each [listing ''1''] 1 initial_conn))
      \<and> working (snd (save_items [listing ''1''] 1 initial_conn))
        = working (snd (save_each [listing ''1''] 1 initial_conn))"
    by blast
  have ne': "[completion ''1''] \<noteq> []
      \<and> fst (update_completed_each [completion ''1''] 2
            (snd (save_items [listing ''1''] 1 initial_conn))) = Inr ()"
    using h4 by simp
  from batch_writes_atomic [where items = "[]" and now = 2 and c = "snd (save_items [listing ''1''] 1 initial_conn)" and done_items = "[completion ''1'']" and e = "KeyError ''item_id''", THEN rest] ne'
  have r4: "fst (update_completed_items [completion ''1''] 2
            (snd (save_items [listing ''1''] 1 initial_conn))) = Inr ()
      \<and> committed (snd (update_completed_items [completion ''1''] 2
            (snd (save_items [listing ''1''] 1 initial_conn))))
        = working (snd (update_completed_each [completion ''1''] 2
            (snd (save_items [listing ''1''] 1 initial_conn))))
      \<and> working (snd (update_completed_items [completion ''1''] 2
            (snd (save_items [listing ''1''] 1 initial_conn))))
        = working (snd (update_completed_each [completion ''1''] 2
            (snd (save_items [listing ''1''] 1 initial_conn))))"
    by blast
  from h1 h2 h3 h4 r1 r2 r3 r4 show ?thesis by simp
qed

text \<open>
  C1 (as amended). When the write of one item of an active batch fails, after the items
  before it were written, \<^verbatim>\<open>save_items\<close> raises that item's exception and rolls the
  transaction back: the tables are those of the last commit, so no item of the batch is
  stored, neither the ones written before the failing item nor the ones after it, which are
  never tried.
\<close>

theorem failing_item_aborts_batch:
  assumes "save_each before now c = (Inr (), c1)"
    and "save_item bad False now c1 = (Inl e, c2)"
  shows "save_items (before @ bad # after) now c = (Inl e, rollback c2)
    \<and> working (rollback c2) = committed c
    \<and> committed (rollback c2) = committed c"
proof -
  have each: "save_each (before @ bad # after) now c = (Inl e, c2)"
    using assms by (simp add: save_each_append bind_op_def)
  have "committed c2 = committed c"
    using committed_save_each [of "before @ bad # after" now c] each by simp
  then show ?thesis
    using each by (simp add: save_items_def rollback_def)
qed

theorem failing_item_aborts_batch_witness:
  "save_each [listing ''1''] 1 initial_conn
     = (Inr (), snd (save_each [listing ''1''] 1 initial_conn))
   \<and> save_item listing_without_id False 1 (snd (save_each [listing ''1''] 1 initial_conn))
     = (Inl (KeyError ''item_id''),
        snd (save_item listing_without_id False 1 (snd (save_each [listing ''1''] 1 initial_conn))))
   \<and> save_items ([listing ''1''] @ listing_without_id # [listing ''3'']) 1 initial_conn
     = (Inl (KeyError ''item_id''),
        rollback (snd (save_item listing_without_id False 1
                         (snd (save_each [listing ''1''] 1 initial_conn)))))
   \<and> working (rollback (snd (save_item listing_without_id False 1
                         (snd (save_each [listing ''1''] 1 initial_conn)))))
     = committed initial_conn"
proof -
  have "fst (save_each [listing ''1''] 1 initial_conn) = Inr ()"
    by code_simp
  then have h1: "save_each [listing ''1''] 1 initial_conn
      = (Inr (), snd (save_each [listing ''1''] 1 initial_conn))"
    by (metis prod.collapse)
  have "fst (save_item listing_without_id False 1 (snd (save_each [listing ''1''] 1 initial_conn)))
      = Inl (KeyError ''item_id'')"
    by code_simp
  then have h2: "save_item listing_without_id False 1 (snd (save_each [listing ''1''] 1 initial_conn))
     = (Inl (KeyError ''item_id''),
        snd (save_item listing_without_id False 1 (snd (save_each [listing ''1''] 1 initial_conn))))"
    by (metis prod.collapse)
  from failing_item_aborts_batch [OF h1 h2, of "[listing ''3'']"] h1 h2
  show ?thesis by blast
qed

text \<open>
  The claim as the specification states it fails: in a batch of three listings whose second
  has no item id, the call raises KeyError and neither the first nor the third listing is
  stored.
\<close>

theorem partial_failure_isolation_counterexample:
  "fst (save_items [listing ''1'', listing_without_id, listing ''3''] 1 initial_conn)
     = Inl (KeyError ''item_id'')
   \<and> auctions (committed (snd (save_items [listing ''1'', listing_without_id, listing ''3''] 1
         initial_conn))) = []
   \<and> auctions (working (snd (save_items [listing ''1'', listing_without_id, listing ''3''] 1
         initial_conn))) = []"
  by code_simp

subsection \<open>Business keys\<close>

lemma update_seller_keys: "keys_ok c \<Longrightarrow> keys_ok (update_seller r f now sid c)"
  by (simp add: unique_keys_def update_seller_def comp_def if_distrib cong: if_cong)

lemma insert_seller_keys: "preserves keys_ok (insert_seller uid r f now)"
  by (auto simp: preserves_def unique_keys_def insert_seller_def Let_def split: option.splits)

lemma get_seller_id_keys: "preserves keys_ok (get_seller_id sd now)"
  unfolding get_seller_id_def
proof (rule preserves_bind)
  show "preserves keys_ok (eval_op (dict_item ''ebay_user_id'' (sd_ebay_user_id sd)))" by simp
next
  fix uid
  show "preserves keys_ok (\<lambda>c. case select_seller_id uid c of
          None \<Rightarrow> insert_seller uid (dict_get (sd_rating sd)) (dict_get (sd_feedback_score sd)) now c
        | Some sid \<Rightarrow> (Inr sid, update_seller (dict_get (sd_rating sd))
                         (dict_get (sd_feedback_score sd)) now sid c))"
    by (rule preservesI)
       (auto split: option.splits intro: update_seller_keys preservesD [OF insert_seller_keys])
qed

lemma update_auction_keys: "preserves keys_ok (update_auction p now k)"
  by (auto simp: preserves_def unique_keys_def update_auction_def bind_op_def not_null_def
        set_auction_def comp_def if_distrib
      split: option.splits cong: if_cong)

lemma insert_auction_keys: "preserves keys_ok (insert_auction iid p pat ends starts now)"
  by (auto simp: preserves_def unique_keys_def insert_auction_def bind_op_def not_null_def Let_def
      split: option.splits)

lemma upsert_auction_keys: "preserves keys_ok (upsert_auction it sid now)"
  unfolding upsert_auction_def
proof (rule preserves_bind)
  show "preserves keys_ok (eval_op (dict_item ''item_id'' (i_item_id it)))" by simp
next
  fix iid
  show "preserves keys_ok (\<lambda>c. case select_auction_id iid c of
          None \<Rightarrow> bind_op (eval_op (insert_params it sid))
                    (\<lambda>(iid', p, pattern, ends, starts). insert_auction iid' p pattern ends starts now) c
        | Some auction_id \<Rightarrow> bind_op (eval_op (update_params it sid))
                    (\<lambda>p. bind_op (update_auction p now auction_id) (\<lambda>_. return_op auction_id)) c)"
  proof (rule preservesI)
    fix c assume k: "keys_ok c"
    have ins: "preserves keys_ok (bind_op (eval_op (insert_params it sid))
        (\<lambda>(iid', p, pattern, ends, starts). insert_auction iid' p pattern ends starts now))"
      by (rule preserves_bind) (simp_all add: split_def insert_auction_keys)
    have upd: "preserves keys_ok (bind_op (eval_op (update_params it sid))
        (\<lambda>p. bind_op (update_auction p now k') (\<lambda>_. return_op k')))" for k'
      by (intro preserves_bind update_auction_keys) simp_all
    show "keys_ok (snd (case select_auction_id iid c of
          None \<Rightarrow> bind_op (eval_op (insert_params it sid))
                    (\<lambda>(iid', p, pattern, ends, starts). insert_auction iid' p pattern ends starts now) c
        | Some auction_id \<Rightarrow> bind_op (eval_op (update_params it sid))
                    (\<lambda>p. bind_op (update_auction p now auction_id) (\<lambda>_. return_op auction_id)) c))"
      using preservesD [OF ins k] preservesD [OF upd k] by (simp split: option.splits)
  qed
qed

lemma upsert_item_specific_keys: "preserves keys_ok (upsert_item_specific k key v now)"
  by (auto simp: preserves_def unique_keys_def upsert_item_specific_def Let_def)

lemma save_item_specifics_keys: "preserves keys_ok (save_item_specifics k m now)"
  by (induction k m now rule: save_item_specifics.induct)
     (auto intro!: preserves_bind upsert_item_specific_keys)

lemma insert_bid_keys: "preserves keys_ok (insert_bid k a tm b w now)"
  by (auto simp: preserves_def unique_keys_def insert_bid_def bind_op_def not_null_def Let_def
      split: option.splits)

lemma save_bids_keys: "preserves keys_ok (save_bids k bs now)"
  by (induction k bs now rule: save_bids.induct)
     (auto intro!: preserves_bind insert_bid_keys)

lemma save_item_body_keys: "preserves keys_ok (save_item_body it now)"
  unfolding save_item_body_def
  by (intro preserves_bind)
     (auto split: option.splits intro: get_seller_id_keys upsert_auction_keys
        save_item_specifics_keys save_bids_keys)

lemma save_item_keys: "preserves keys_ok (\<lambda>c. save_item it False now c)"
  by (rule preservesI) (simp add: snd_save_item_False preservesD [OF save_item_body_keys])

lemma save_each_keys: "preserves keys_ok (save_each items now)"
  by (induction items now rule: save_each.induct)
     (auto intro!: preserves_bind save_item_keys)

lemma mark_completed_keys: "keys_ok c \<Longrightarrow> keys_ok (snd (mark_completed fp nb iid now c))"
  by (simp add: unique_keys_def mark_completed_def comp_def if_distrib cong: if_cong)

lemma insert_winning_bid_keys: "preserves keys_ok (insert_winning_bid k wb now)"
  unfolding insert_winning_bid_def
  by (intro preserves_bind insert_bid_keys) simp_all

lemma update_completed_item_keys: "preserves keys_ok (update_completed_item it now)"
  unfolding update_completed_item_def
proof (rule preserves_bind)
  show "preserves keys_ok (eval_op (dict_item ''item_id'' (ci_item_id it)))" by simp
next
  fix iid
  let ?m = "mark_completed (dict_get (ci_final_price it)) (dict_get_default 0 (ci_num_bids it)) iid now"
  show "preserves keys_ok (\<lambda>c. case ?m c of
      (result, c') \<Rightarrow>
        (case result of
           None \<Rightarrow> (Inr (), c')
         | Some auction_id \<Rightarrow>
             if has_entries (ci_bids it) then
               (let winning_bid = last (entries (ci_bids it)) in
                if bid_truthy winning_bid
                then insert_winning_bid auction_id winning_bid now c'
                else (Inr (), c'))
             else (Inr (), c')))"
  proof (rule preservesI)
    fix c assume k: "keys_ok c"
    obtain result c' where m: "?m c = (result, c')" by (cases "?m c")
    from mark_completed_keys [OF k, of "dict_get (ci_final_price it)"
        "dict_get_default 0 (ci_num_bids it)" iid now] m
    have k': "keys_ok c'" by simp
    show "keys_ok (snd (case ?m c of
      (result, c') \<Rightarrow>
        (case result of
           None \<Rightarrow> (Inr (), c')
         | Some auction_id \<Rightarrow>
             if has_entries (ci_bids it) then
               (let winning_bid = last (entries (ci_bids it)) in
                if bid_truthy winning_bid
                then insert_winning_bid auction_id winning_bid now c'
                else (Inr (), c'))
             else (Inr (), c'))))"
      using m k' preservesD [OF insert_winning_bid_keys k']
      by (simp add: Let_def split: option.splits)
  qed
qed

lemma update_completed_each_keys: "preserves keys_ok (update_completed_each items now)"
  by (induction items now rule: update_completed_each.induct)
     (auto intro!: preserves_bind update_completed_item_keys)

lemma apply_store_op_keys:
  assumes "conn_keys_ok c"
  shows "conn_keys_ok (apply_store_op op c)"
proof (cases op)
  case (GetSellerId sd now)
  with assms preservesD [OF get_seller_id_keys, of c sd now]
  show ?thesis by (simp add: conn_keys_ok_def)
next
  case (SaveItem it now)
  obtain r c' where b: "save_item_body it now c = (r, c')" by (cases "save_item_body it now c")
  from assms preservesD [OF save_item_body_keys, of c it now] b
  have "keys_ok c'" by (simp add: conn_keys_ok_def)
  moreover from b committed_save_item_body [of it now c] have "committed c' = committed c" by simp
  ultimately show ?thesis
    using assms SaveItem b
    by (cases r) (simp_all add: save_item_def conn_keys_ok_def commit_def rollback_def)
next
  case (SaveItems items now)
  obtain r c' where b: "save_each items now c = (r, c')" by (cases "save_each items now c")
  from assms preservesD [OF save_each_keys, of c items now] b
  have "keys_ok c'" by (simp add: conn_keys_ok_def)
  moreover from b committed_save_each [of items now c] have "committed c' = committed c" by simp
  ultimately show ?thesis
    using assms SaveItems b
    by (cases r) (simp_all add: save_items_def conn_keys_ok_def commit_def rollback_def)
next
  case (UpdateCompletedItems items now)
  obtain r c' where b: "update_completed_each items now c = (r, c')"
    by (cases "update_completed_each items now c")
  from assms preservesD [OF update_completed_each_keys, of c items now] b
  have "keys_ok c'" by (simp add: conn_keys_ok_def)
  moreover from b committed_update_completed_each [of items now c]
  have "committed c' = committed c" by simp
  ultimately show ?thesis
    using assms UpdateCompletedItems b
    by (cases r) (simp_all add: update_completed_items_def conn_keys_ok_def commit_def rollback_def)
qed

lemma run_ops_keys: "conn_keys_ok c \<Longrightarrow> conn_keys_ok (run_ops ops c)"
  unfolding run_ops_def
  by (induction ops arbitrary: c) (simp_all add: apply_store_op_keys)

lemma select_seller_id_update_seller [simp]:
  "select_seller_id uid (update_seller r f now sid c) = select_seller_id uid c"
proof -
  let ?g = "\<lambda>row. if s_id row = sid
              then row\<lparr>s_rating := r, s_feedback_score := f, s_updated_at := now\<rparr> else row"
  have "find (\<lambda>row. Some (s_ebay_user_id row) = uid) (map ?g (sellers (working c)))
      = map_option ?g (find (\<lambda>row. Some (s_ebay_user_id row) = uid) (sellers (working c)))"
    by (rule find_map_same) simp
  then show ?thesis
    by (simp add: select_seller_id_def update_seller_def option.map_comp comp_def if_distrib
          cong: if_cong)
qed

lemma select_seller_id_None [simp]: "select_seller_id None c = None"
  by (simp add: select_seller_id_def find_None_iff)

lemma resolved_seller_found:
  assumes "get_seller_id sd now c = (Inr sid, c1)"
  shows "\<exists>u. sd_ebay_user_id sd = Present u \<and> select_seller_id (Some u) c1 = Some sid"
proof (cases "sd_ebay_user_id sd")
  case Absent
  with assms show ?thesis by (simp add: get_seller_id_def bind_op_def eval_op_def)
next
  case Null
  with assms show ?thesis
    by (simp add: get_seller_id_def bind_op_def eval_op_def insert_seller_def Let_def)
next
  case (Present u)
  show ?thesis
  proof (cases "select_seller_id (Some u) c")
    case (Some sid0)
    with assms Present have "sid0 = sid"
      and "c1 = update_seller (dict_get (sd_rating sd)) (dict_get (sd_feedback_score sd)) now sid c"
      by (auto simp: get_seller_id_def bind_op_def eval_op_def)
    with Some Present show ?thesis by simp
  next
    case None
    with assms Present have ins: "insert_seller (Some u) (dict_get (sd_rating sd))
        (dict_get (sd_feedback_score sd)) now c = (Inr sid, c1)"
      by (simp add: get_seller_id_def bind_op_def eval_op_def)
    from None have nf: "find (\<lambda>r. s_ebay_user_id r = u) (sellers (working c)) = None"
      by (simp add: select_seller_id_def)
    have snoc: "find (\<lambda>r. s_ebay_user_id r = u) (sellers (working c) @ [new]) = Some new"
      if "s_ebay_user_id new = u" for new
      using find_snoc_new [OF nf, of new] that by simp
    from ins have "select_seller_id (Some u) c1 = Some sid"
      by (auto simp: insert_seller_def Let_def select_seller_id_def snoc split: if_splits)
    with Present show ?thesis by simp
  qed
qed

lemma get_seller_id_again:
  assumes "get_seller_id sd now c = (Inr sid, c1)"
  shows "get_seller_id sd now' c1
    = (Inr sid, update_seller (dict_get (sd_rating sd)) (dict_get (sd_feedback_score sd)) now' sid c1)"
proof -
  from resolved_seller_found [OF assms] obtain u
    where "sd_ebay_user_id sd = Present u" "select_seller_id (Some u) c1 = Some sid" by blast
  then show ?thesis by (simp add: get_seller_id_def bind_op_def eval_op_def)
qed

lemma select_seller_id_Some:
  "select_seller_id (Some u) c = Some sid \<Longrightarrow> u \<in> s_ebay_user_id ` set (sellers (working c))"
  by (auto simp: select_seller_id_def find_Some_iff)

text \<open>
  C9. For every sequence of calls (seller resolutions, single saves, active batches and
  completed batches), started on a connection whose tables have no two sellers with the
  same marketplace user id and no two auctions with the same marketplace item id, the
  committed tables and the transaction's tables still have none. And once
  \<^verbatim>\<open>get_seller_id\<close> has returned a key for some seller facts, resolving the same
  facts again returns the same key, takes no new id from the sequence, and changes the
  sellers table only by setting that row's rating, feedback score and update time; the
  user id then has exactly one row.
\<close>

theorem business_keys_unique:
  "(unique_keys (committed c) \<and> unique_keys (working c) \<longrightarrow>
      unique_keys (committed (run_ops ops c)) \<and> unique_keys (working (run_ops ops c)))
   \<and> (get_seller_id seller_data now c = (Inr sid, c1) \<longrightarrow>
        fst (get_seller_id seller_data now' c1) = Inr sid
        \<and> sellers (working (snd (get_seller_id seller_data now' c1)))
            = map (\<lambda>r. if s_id r = sid
                        then r\<lparr>s_rating := dict_get (sd_rating seller_data),
                               s_feedback_score := dict_get (sd_feedback_score seller_data),
                               s_updated_at := now'\<rparr>
                        else r)
                  (sellers (working c1))
        \<and> sellers_id_seq (snd (get_seller_id seller_data now' c1)) = sellers_id_seq c1
        \<and> (unique_keys (working c) \<longrightarrow>
             (\<forall>u. sd_ebay_user_id seller_data = Present u \<longrightarrow>
               length (filter (\<lambda>r. s_ebay_user_id r = u) (sellers (working c1))) = 1
               \<and> length (filter (\<lambda>r. s_ebay_user_id r = u)
                    (sellers (working (snd (get_seller_id seller_data now' c1))))) = 1)))"
proof (intro conjI impI allI)
  assume "unique_keys (committed c) \<and> unique_keys (working c)"
  then have "conn_keys_ok (run_ops ops c)"
    by (intro run_ops_keys) (simp add: conn_keys_ok_def)
  then show "unique_keys (committed (run_ops ops c))" and "unique_keys (working (run_ops ops c))"
    by (simp_all add: conn_keys_ok_def)
next
  assume first: "get_seller_id seller_data now c = (Inr sid, c1)"
  note again = get_seller_id_again [OF first, of now']
  show "fst (get_seller_id seller_data now' c1) = Inr sid"
    by (simp add: again)
  show "sellers (working (snd (get_seller_id seller_data now' c1)))
      = map (\<lambda>r. if s_id r = sid
                  then r\<lparr>s_rating := dict_get (sd_rating seller_data),
                         s_feedback_score := dict_get (sd_feedback_score seller_data),
                         s_updated_at := now'\<rparr>
                  else r)
            (sellers (working c1))"
    by (simp add: again update_seller_def)
  show "sellers_id_seq (snd (get_seller_id seller_data now' c1)) = sellers_id_seq c1"
    by (simp add: again update_seller_def)
  fix u
  assume uk: "unique_keys (working c)" and u: "sd_ebay_user_id seller_data = Present u"
  from preservesD [OF get_seller_id_keys uk, of seller_data now] first
  have k1: "keys_ok c1" by simp
  from preservesD [OF get_seller_id_keys k1, of seller_data now']
  have k2: "keys_ok (snd (get_seller_id seller_data now' c1))" .
  have sel1: "select_seller_id (Some u) c1 = Some sid"
    using resolved_seller_found [OF first] u by simp
  then obtain r where r: "r \<in> set (sellers (working c1))" "s_ebay_user_id r = u"
    using select_seller_id_Some by blast
  from k1 have "distinct (map s_ebay_user_id (sellers (working c1)))"
    by (simp add: unique_keys_def)
  from distinct_key_once [OF this r(1)] r(2)
  show "length (filter (\<lambda>r. s_ebay_user_id r = u) (sellers (working c1))) = 1" by simp
  have "select_seller_id (Some u) (snd (get_seller_id seller_data now' c1)) = Some sid"
    using sel1 by (simp add: again)
  then obtain r' where r': "r' \<in> set (sellers (working (snd (get_seller_id seller_data now' c1))))"
      "s_ebay_user_id r' = u"
    using select_seller_id_Some by blast
  from k2 have "distinct (map s_ebay_user_id
      (sellers (working (snd (get_seller_id seller_data now' c1)))))"
    by (simp add: unique_keys_def)
  from distinct_key_once [OF this r'(1)] r'(2)
  show "length (filter (\<lambda>r. s_ebay_user_id r = u)
      (sellers (working (snd (get_seller_id seller_data now' c1))))) = 1" by simp
qed

theorem business_keys_unique_witness:
  "unique_keys (committed initial_conn) \<and> unique_keys (working initial_conn)
   \<and> unique_keys (committed (run_ops sample_ops initial_conn))
   \<and> unique_keys (working (run_ops sample_ops initial_conn))
   \<and> get_seller_id seller_s1 1 initial_conn = (Inr 1, snd (get_seller_id seller_s1 1 initial_conn))
   \<and> fst (get_seller_id seller_s1 2 (snd (get_seller_id seller_s1 1 initial_conn))) = Inr 1
   \<and> sellers_id_seq (snd (get_seller_id seller_s1 2 (snd (get_seller_id seller_s1 1 initial_conn))))
       = sellers_id_seq (snd (get_seller_id seller_s1 1 initial_conn))
   \<and> sd_ebay_user_id seller_s1 = Present ''s1''
   \<and> length (filter (\<lambda>r. s_ebay_user_id r = ''s1'')
        (sellers (working (snd (get_seller_id seller_s1 2
           (snd (get_seller_id seller_s1 1 initial_conn))))))) = 1"
proof -
  have h1: "unique_keys (committed initial_conn) \<and> unique_keys (working initial_conn)"
    by code_simp
  have "fst (get_seller_id seller_s1 1 initial_conn) = Inr 1"
    by code_simp
  then have h2: "get_seller_id seller_s1 1 initial_conn
      = (Inr 1, snd (get_seller_id seller_s1 1 initial_conn))"
    by (metis prod.collapse)
  have h3: "sd_ebay_user_id seller_s1 = Present ''s1''"
    by (simp add: seller_s1_def)
  from business_keys_unique [of initial_conn sample_ops seller_s1 1 1
      "snd (get_seller_id seller_s1 1 initial_conn)" 2] h1 h2 h3
  show ?thesis by blast
qed

subsection \<open>Item specifics\<close>








subsection \<open>The auction upsert\<close>







subsection \<open>Completions\<close>

lemma auctions_insert_bid [simp]:
  "auctions (working (snd (insert_bid k a tm b w now c))) = auctions (working c)"
proof -
  have "auctions (working (snd (insert_bid k a tm b w now c)))
      = auctions (working (c\<lparr>bids_id_seq := Suc (bids_id_seq c)\<rparr>))"
    unfolding insert_bid_def Let_def
    by (intro frame_bind [where g = "\<lambda>c. auctions (working c)"]) (simp_all add: Let_def)
  then show ?thesis by simp
qed

lemma auctions_insert_winning_bid [simp]:
  "auctions (working (snd (insert_winning_bid k wb now c))) = auctions (working c)"
  unfolding insert_winning_bid_def
  by (intro frame_bind [where g = "\<lambda>c. auctions (working c)"]) simp_all








subsection \<open>Status\<close>

lemma stays_completed_refl [simp]: "stays_completed r r"
  by (simp add: stays_completed_def)

lemma list_all2_stays_completed_refl [simp]: "list_all2 stays_completed rows rows"
  by (simp add: list_all2_same)











subsection \<open>Bids\<close>

text \<open>On a connection whose bid ids came from the sequence, the insert of a bid with an
  amount and a time always adds a row: the new id is never in the table, and no other
  column is compared.\<close>

lemma insert_bid_appends:
  assumes "bid_ids_issued c"
  shows "bids (working (snd (insert_bid auction_id (Some amount) (Some time) bidder winning now c)))
    = bids (working c) @
      [\<lparr>b_id = Suc (bids_id_seq c), b_auction_id = auction_id, b_bid_amount = amount,
        b_bid_time = time, b_bidder_id = bidder, b_winning_bid = winning, b_created_at = now\<rparr>]"
proof -
  from assms have "Suc (bids_id_seq c) \<notin> b_id ` set (bids (working c))"
    by (auto simp: bid_ids_issued_def)
  then show ?thesis
    by (simp add: insert_bid_def bind_op_def not_null_def Let_def)
qed

text \<open>
  C3. The code at the claim's input: on a connection with one auction and no bid, the same
  bid (auction, amount, time, bidder) is inserted twice, and the table then holds two rows
  with that tuple.
\<close>

theorem identical_bid_stored_twice:
  "map (\<lambda>r. (b_auction_id r, b_bid_amount r, b_bid_time r, b_bidder_id r))
     (bids (working (snd (insert_bid 1 (Some 12000) (Some 900) (Some ''b1'') (Some False) 1
        conn_tracking))))
     = [(1, 12000, 900, Some ''b1'')]
   \<and> map (\<lambda>r. (b_auction_id r, b_bid_amount r, b_bid_time r, b_bidder_id r))
     (bids (working (snd (insert_bid 1 (Some 12000) (Some 900) (Some ''b1'') (Some False) 1
        (snd (insert_bid 1 (Some 12000) (Some 900) (Some ''b1'') (Some False) 1
           conn_tracking))))))
     = [(1, 12000, 900, Some ''b1''), (1, 12000, 900, Some ''b1'')]"
  by code_simp

text \<open>
  C2. The code at the claim's input: a batch of one listing with one item specific and one
  bid is saved twice, at the same time. Both calls succeed; the sellers, auctions and item
  specifics are the same after the second call as after the first, and the bid is stored
  twice.
\<close>

theorem replayed_batch_duplicates_bids:
  "fst (save_items [listing_with_bid] 1 initial_conn) = Inr ()
   \<and> fst (save_items [listing_with_bid] 1 (snd (save_items [listing_with_bid] 1 initial_conn)))
       = Inr ()
   \<and> map (\<lambda>r. (b_auction_id r, b_bid_amount r, b_bid_time r, b_bidder_id r))
       (bids (committed (snd (save_items [listing_with_bid] 1 initial_conn))))
     = [(1, 12000, 900, Some ''b1'')]
   \<and> map (\<lambda>r. (b_auction_id r, b_bid_amount r, b_bid_time r, b_bidder_id r))
       (bids (committed (snd (save_items [listing_with_bid] 1
          (snd (save_items [listing_with_bid] 1 initial_conn))))))
     = [(1, 12000, 900, Some ''b1''), (1, 12000, 900, Some ''b1'')]
   \<and> sellers (committed (snd (save_items [listing_with_bid] 1
          (snd (save_items [listing_with_bid] 1 initial_conn)))))
     = sellers (committed (snd (save_items [listing_with_bid] 1 initial_conn)))
   \<and> auctions (committed (snd (save_items [listing_with_bid] 1
          (snd (save_items [listing_with_bid] 1 initial_conn)))))
     = auctions (committed (snd (save_items [listing_with_bid] 1 initial_conn)))
   \<and> item_specifics (committed (snd (save_items [listing_with_bid] 1
          (snd (save_items [listing_with_bid] 1 initial_conn)))))
     = item_specifics (committed (snd (save_items [listing_with_bid] 1 initial_conn)))"
  by code_simp

subsection \<open>Connections that the handler's calls reach\<close>

lemma store_ok_initial: "store_ok initial_conn"
  by (simp add: store_ok_def ids_issued_def initial_conn_def empty_tables_def)

lemma update_seller_ok: "store_ok c \<Longrightarrow> store_ok (update_seller r f now sid c)"
  by (auto simp: store_ok_def ids_issued_def update_seller_def)

lemma insert_seller_ok: "preserves store_ok (insert_seller uid r f now)"
  by (auto simp: preserves_def store_ok_def ids_issued_def insert_seller_def Let_def
        le_SucI split: option.splits)

lemma get_seller_id_ok: "preserves store_ok (get_seller_id sd now)"
  unfolding get_seller_id_def
proof (rule preserves_bind)
  show "preserves store_ok (eval_op (dict_item ''ebay_user_id'' (sd_ebay_user_id sd)))" by simp
next
  fix uid
  show "preserves store_ok (\<lambda>c. case select_seller_id uid c of
          None \<Rightarrow> insert_seller uid (dict_get (sd_rating sd)) (dict_get (sd_feedback_score sd)) now c
        | Some sid \<Rightarrow> (Inr sid, update_seller (dict_get (sd_rating sd))
                         (dict_get (sd_feedback_score sd)) now sid c))"
    by (rule preservesI)
       (auto split: option.splits intro: update_seller_ok preservesD [OF insert_seller_ok])
qed

lemma map_a_id_set_auction:
  "map a_id (map (\<lambda>r. if a_id r = k then set_auction p t u s now r else r) rows) = map a_id rows"
  by (induction rows) (simp_all add: set_auction_def)

lemma update_auction_ok: "preserves store_ok (update_auction p now k)"
proof (rule preservesI)
  fix c assume ok: "store_ok c"
  show "store_ok (snd (update_auction p now k c))"
  proof (cases "k \<in> a_id ` set (auctions (working c)) \<and> p_title p \<noteq> None \<and> p_url p \<noteq> None
      \<and> p_auction_status p \<noteq> None")
    case False
    with ok show ?thesis
      by (auto simp: update_auction_def bind_op_def not_null_def split: option.splits)
  next
    case True
    then obtain t u s where v: "p_title p = Some t" "p_url p = Some u" "p_auction_status p = Some s"
      by auto
    let ?rows = "map (\<lambda>r. if a_id r = k then set_auction p t u s now r else r)
        (auctions (working c))"
    from True v have c': "snd (update_auction p now k c)
        = c\<lparr>working := (working c)\<lparr>auctions := ?rows\<rparr>\<rparr>"
      by (simp add: update_auction_def bind_op_def not_null_def)
    have ids: "map a_id ?rows = map a_id (auctions (working c))"
      by (rule map_a_id_set_auction)
    have "\<forall>r \<in> set ?rows. a_id r \<le> auctions_id_seq c"
    proof
      fix r assume "r \<in> set ?rows"
      then have "a_id r \<in> a_id ` set ?rows" by (rule imageI)
      also have "a_id ` set ?rows = set (map a_id ?rows)" by (simp only: set_map)
      also have "\<dots> = set (map a_id (auctions (working c)))" by (simp only: ids)
      finally have "a_id r \<in> a_id ` set (auctions (working c))" by (simp only: set_map)
      with ok show "a_id r \<le> auctions_id_seq c"
        by (auto simp: store_ok_def ids_issued_def)
    qed
    moreover from ok have "distinct (map a_id ?rows)"
      unfolding ids by (simp add: store_ok_def ids_issued_def)
    ultimately show ?thesis
      using ok unfolding c' by (simp add: store_ok_def ids_issued_def)
  qed
qed

lemma insert_auction_ok: "preserves store_ok (insert_auction iid p pat ends starts now)"
  by (auto simp: preserves_def store_ok_def ids_issued_def insert_auction_def bind_op_def
        not_null_def Let_def le_SucI split: option.splits)

lemma upsert_auction_ok: "preserves store_ok (upsert_auction it sid now)"
  unfolding upsert_auction_def
proof (rule preserves_bind)
  show "preserves store_ok (eval_op (dict_item ''item_id'' (i_item_id it)))" by simp
next
  fix iid
  show "preserves store_ok (\<lambda>c. case select_auction_id iid c of
          None \<Rightarrow> bind_op (eval_op (insert_params it sid))
                    (\<lambda>(iid', p, pattern, ends, starts). insert_auction iid' p pattern ends starts now) c
        | Some auction_id \<Rightarrow> bind_op (eval_op (update_params it sid))
                    (\<lambda>p. bind_op (update_auction p now auction_id) (\<lambda>_. return_op auction_id)) c)"
  proof (rule preservesI)
    fix c assume k: "store_ok c"
    have ins: "preserves store_ok (bind_op (eval_op (insert_params it sid))
        (\<lambda>(iid', p, pattern, ends, starts). insert_auction iid' p pattern ends starts now))"
      by (rule preserves_bind) (simp_all add: split_def insert_auction_ok)
    have upd: "preserves store_ok (bind_op (eval_op (update_params it sid))
        (\<lambda>p. bind_op (update_auction p now k') (\<lambda>_. return_op k')))" for k'
      by (intro preserves_bind update_auction_ok) simp_all
    show "store_ok (snd (case select_auction_id iid c of
          None \<Rightarrow> bind_op (eval_op (insert_params it sid))
                    (\<lambda>(iid', p, pattern, ends, starts). insert_auction iid' p pattern ends starts now) c
        | Some auction_id \<Rightarrow> bind_op (eval_op (update_params it sid))
                    (\<lambda>p. bind_op (update_auction p now auction_id) (\<lambda>_. return_op auction_id)) c))"
      using preservesD [OF ins k] preservesD [OF upd k] by (simp split: option.splits)
  qed
qed

lemma upsert_item_specific_store_ok: "preserves store_ok (upsert_item_specific k key v now)"
  by (auto simp: preserves_def store_ok_def ids_issued_def upsert_item_specific_def Let_def le_SucI)

lemma save_item_specifics_ok: "preserves store_ok (save_item_specifics k m now)"
  by (induction k m now rule: save_item_specifics.induct)
     (auto intro!: preserves_bind upsert_item_specific_store_ok)

lemma insert_bid_ok: "preserves store_ok (insert_bid k a tm b w now)"
  by (auto simp: preserves_def store_ok_def ids_issued_def insert_bid_def bind_op_def
        not_null_def Let_def le_SucI split: option.splits)

lemma save_bids_ok: "preserves store_ok (save_bids k bs now)"
  by (induction k bs now rule: save_bids.induct)
     (auto intro!: preserves_bind insert_bid_ok)

lemma save_item_body_ok: "preserves store_ok (save_item_body it now)"
  unfolding save_item_body_def
  by (intro preserves_bind)
     (auto split: option.splits intro: get_seller_id_ok upsert_auction_ok
        save_item_specifics_ok save_bids_ok)

lemma save_item_ok: "preserves store_ok (\<lambda>c. save_item it False now c)"
  by (rule preservesI) (simp add: snd_save_item_False preservesD [OF save_item_body_ok])

lemma save_each_ok: "preserves store_ok (save_each items now)"
  by (induction items now rule: save_each.induct)
     (auto intro!: preserves_bind save_item_ok)

lemma map_a_id_mark:
  "map a_id (map (\<lambda>r. if Some (a_item_id r) = iid
       then r\<lparr>a_auction_status := st, a_current_price := fp, a_num_bids := nb,
              a_updated_at := now\<rparr> else r) rows) = map a_id rows"
  by (induction rows) simp_all

lemma mark_completed_ok:
  assumes "store_ok c"
  shows "store_ok (snd (mark_completed fp nb iid now c))"
proof -
  let ?rows = "map (\<lambda>r. if Some (a_item_id r) = iid
       then r\<lparr>a_auction_status := ''completed'', a_current_price := fp, a_num_bids := nb,
              a_updated_at := now\<rparr> else r) (auctions (working c))"
  have ids: "map a_id ?rows = map a_id (auctions (working c))"
    by (rule map_a_id_mark)
  have "\<forall>r \<in> set ?rows. a_id r \<le> auctions_id_seq c"
  proof
    fix r assume "r \<in> set ?rows"
    then have "a_id r \<in> a_id ` set ?rows" by (rule imageI)
    also have "a_id ` set ?rows = set (map a_id ?rows)" by (simp only: set_map)
    also have "\<dots> = set (map a_id (auctions (working c)))" by (simp only: ids)
    finally have "a_id r \<in> a_id ` set (auctions (working c))" by (simp only: set_map)
    with assms show "a_id r \<le> auctions_id_seq c"
      by (auto simp: store_ok_def ids_issued_def)
  qed
  moreover from assms have "distinct (map a_id ?rows)"
    unfolding ids by (simp add: store_ok_def ids_issued_def)
  ultimately show ?thesis
    using assms by (simp add: mark_completed_def store_ok_def ids_issued_def)
qed

lemma insert_winning_bid_ok: "preserves store_ok (insert_winning_bid k wb now)"
  unfolding insert_winning_bid_def
  by (intro preserves_bind insert_bid_ok) simp_all

lemma update_completed_item_ok: "preserves store_ok (update_completed_item it now)"
  unfolding update_completed_item_def
proof (rule preserves_bind)
  show "preserves store_ok (eval_op (dict_item ''item_id'' (ci_item_id it)))" by simp
next
  fix iid
  let ?m = "mark_completed (dict_get (ci_final_price it)) (dict_get_default 0 (ci_num_bids it)) iid now"
  show "preserves store_ok (\<lambda>c. case ?m c of
      (result, c') \<Rightarrow>
        (case result of
           None \<Rightarrow> (Inr (), c')
         | Some auction_id \<Rightarrow>
             if has_entries (ci_bids it) then
               (let winning_bid = last (entries (ci_bids it)) in
                if bid_truthy winning_bid
                then insert_winning_bid auction_id winning_bid now c'
                else (Inr (), c'))
             else (Inr (), c')))"
  proof (rule preservesI)
    fix c assume k: "store_ok c"
    obtain result c' where m: "?m c = (result, c')" by (cases "?m c")
    from mark_completed_ok [OF k, of "dict_get (ci_final_price it)"
        "dict_get_default 0 (ci_num_bids it)" iid now] m
    have k': "store_ok c'" by simp
    show "store_ok (snd (case ?m c of
      (result, c') \<Rightarrow>
        (case result of
           None \<Rightarrow> (Inr (), c')
         | Some auction_id \<Rightarrow>
             if has_entries (ci_bids it) then
               (let winning_bid = last (entries (ci_bids it)) in
                if bid_truthy winning_bid
                then insert_winning_bid auction_id winning_bid now c'
                else (Inr (), c'))
             else (Inr (), c'))))"
      using m k' preservesD [OF insert_winning_bid_ok k']
      by (simp add: Let_def split: option.splits)
  qed
qed

lemma update_completed_each_ok: "preserves store_ok (update_completed_each items now)"
  by (induction items now rule: update_completed_each.induct)
     (auto intro!: preserves_bind update_completed_item_ok)

lemma commit_ok: "store_ok c \<Longrightarrow> store_ok (commit c)"
  by (simp add: store_ok_def ids_issued_def commit_def)

lemma rollback_ok: "store_ok c \<Longrightarrow> store_ok (rollback c)"
  by (simp add: store_ok_def ids_issued_def rollback_def)

lemma apply_store_op_ok:
  assumes "store_ok c"
  shows "store_ok (apply_store_op op c)"
proof (cases op)
  case (GetSellerId sd now)
  with preservesD [OF get_seller_id_ok assms, of sd now] show ?thesis by simp
next
  case (SaveItem it now)
  obtain r c' where b: "save_item_body it now c = (r, c')" by (cases "save_item_body it now c")
  from preservesD [OF save_item_body_ok assms, of it now] b have "store_ok c'" by simp
  with SaveItem b show ?thesis
    by (cases r) (simp_all add: save_item_def commit_ok rollback_ok)
next
  case (SaveItems items now)
  obtain r c' where b: "save_each items now c = (r, c')" by (cases "save_each items now c")
  from preservesD [OF save_each_ok assms, of items now] b have "store_ok c'" by simp
  with SaveItems b assms show ?thesis
    by (cases r) (simp_all add: save_items_def commit_ok rollback_ok)
next
  case (UpdateCompletedItems items now)
  obtain r c' where b: "update_completed_each items now c = (r, c')"
    by (cases "update_completed_each items now c")
  from preservesD [OF update_completed_each_ok assms, of items now] b have "store_ok c'" by simp
  with UpdateCompletedItems b assms show ?thesis
    by (cases r) (simp_all add: update_completed_items_def commit_ok rollback_ok)
qed

lemma run_ops_ok: "store_ok c \<Longrightarrow> store_ok (run_ops ops c)"
  unfolding run_ops_def
  by (induction ops arbitrary: c) (simp_all add: apply_store_op_ok)

text \<open>Every connection that calls of the handler reach from a new database satisfies
  what the theorems on the upserts and the bid insert ask of it.\<close>

lemma reachable_ids_issued:
  "specific_ids_issued (run_ops ops initial_conn)
   \<and> auction_ids_issued (run_ops ops initial_conn)
   \<and> bid_ids_issued (run_ops ops initial_conn)
   \<and> distinct (map a_id (auctions (working (run_ops ops initial_conn))))
   \<and> unique_keys (working (run_ops ops initial_conn))"
proof -
  from run_ops_ok [OF store_ok_initial, of ops]
  have "ids_issued (working (run_ops ops initial_conn)) (run_ops ops initial_conn)"
    by (simp add: store_ok_def)
  moreover have "conn_keys_ok initial_conn"
    by (simp add: conn_keys_ok_def unique_keys_def initial_conn_def empty_tables_def)
  from run_ops_keys [OF this, of ops]
  have "unique_keys (working (run_ops ops initial_conn))"
    by (simp add: conn_keys_ok_def)
  ultimately show ?thesis
    by (simp add: ids_issued_def specific_ids_issued_def auction_ids_issued_def
          bid_ids_issued_def)
qed

text \<open>
  C8. For a configured interval of \<open>T\<close> seconds and a cycle that took \<open>d\<close> seconds
  (whenever it started), the sleep the continuous scheduler computes is \<open>max 0 (T - d)\<close>:
  it is \<open>T - d\<close> when \<open>d < T\<close>, and \<open>0\<close> when \<open>d \<ge> T\<close>.
\<close>

theorem sleep_time_drift_corrected:
  "sleep_time T s (s + d) = max 0 (T - d)
   \<and> (d < T \<longrightarrow> sleep_time T s (s + d) = T - d)
   \<and> (d \<ge> T \<longrightarrow> sleep_time T s (s + d) = 0)"
  by (simp add: sleep_time_def Let_def max_def)

theorem sleep_time_drift_corrected_witness:
  "(5::real) < 1800 \<and> sleep_time 1800 100 (100 + 5) = 1795
   \<and> (2000::real) \<ge> 1800 \<and> sleep_time 1800 100 (100 + 2000) = 0
   \<and> sleep_time (polling_interval 30) 0 (0 + 5) = 1795"
  using sleep_time_drift_corrected [of 1800 100 5] sleep_time_drift_corrected [of 1800 100 2000]
    sleep_time_drift_corrected [of "polling_interval 30" 0 5]
  by (simp add: polling_interval_def)

end
